theory Spec2Isabelle
  imports Complex_Main "HOL-Library.Sublist" "HOL-Library.AList"
begin

section \<open>Python values used by the sources\<close>

text \<open>
  Exceptions of the Python sources are values; a function that can raise returns
  \<open>py_error + 'a\<close> with \<open>Inl\<close> for the exception.
\<close>

datatype py_error =
  AssertionError | IndexError | KeyError | AttributeError | TypeError | RuntimeError

text \<open>\<open>xs[:n]\<close> for a Python integer \<open>n\<close>: a negative stop counts from the end.\<close>

definition py_slice_to :: "int \<Rightarrow> 'a list \<Rightarrow> 'a list" where
  "py_slice_to n xs =
     (if n < 0 then take (nat (int (length xs) + n)) xs else take (nat n) xs)"

text \<open>\<open>[x] * n\<close>: a count that is not positive gives the empty list.\<close>

definition py_repeat :: "'a \<Rightarrow> int \<Rightarrow> 'a list" where
  "py_repeat x n = replicate (nat n) x"

text \<open>\<open>str.isspace\<close> on the code points below 256, as \<open>str.split()\<close> uses it.\<close>

definition isspace :: "char \<Rightarrow> bool" where
  "isspace c = ((of_char c :: nat) \<in> {9, 10, 11, 12, 13, 28, 29, 30, 31, 32, 133, 160})"

text \<open>\<open>s.split()\<close>: the maximal runs of characters that are not whitespace.\<close>

fun split_ws :: "string \<Rightarrow> string \<Rightarrow> string list" where
  "split_ws w [] = (if w = [] then [] else [w])"
| "split_ws w (c # cs) =
     (if isspace c then (if w = [] then split_ws [] cs else w # split_ws [] cs)
      else split_ws (w @ [c]) cs)"

definition py_split :: "string \<Rightarrow> string list" where
  "py_split s = split_ws [] s"

fun py_join :: "string \<Rightarrow> string list \<Rightarrow> string" where
  "py_join sep [] = []"
| "py_join sep [x] = x"
| "py_join sep (x # y # ys) = x @ sep @ py_join sep (y # ys)"

section \<open>entryX: preprocessing of sentences\<close>

record InputFeatures =
  input_ids :: "int list"
  input_mask :: "int list"
  segment_ids :: "int list"

text \<open>The tokenizer is an external collaborator: its two operations are parameters.\<close>

record tokenizer =
  tokenize :: "string \<Rightarrow> string list"
  convert_tokens_to_ids :: "string list \<Rightarrow> int list"

text \<open>One iteration of the loop of \<open>preprocess_bert\<close>, up to the three assertions.\<close>

definition bert_example :: "tokenizer \<Rightarrow> int \<Rightarrow> string \<Rightarrow> py_error + InputFeatures" where
  "bert_example tk max_seq_len sent0 =
     (let sent = py_join '' '' (py_split sent0);
          tokens0 = tokenize tk sent;
          tokens1 = (if int (length tokens0) > max_seq_len - 2
                     then py_slice_to (max_seq_len - 2) tokens0 else tokens0);
          tokens = [''[CLS]''] @ tokens1 @ [''[SEP]''];
          ids0 = convert_tokens_to_ids tk tokens;
          seg0 = py_repeat 0 (int (length ids0));
          mask0 = py_repeat 1 (int (length ids0));
          padding = py_repeat 0 (max_seq_len - int (length ids0));
          ids = ids0 @ padding;
          mask = mask0 @ padding;
          seg = seg0 @ padding
      in if int (length ids) \<noteq> max_seq_len then Inl AssertionError
         else if int (length mask) \<noteq> max_seq_len then Inl AssertionError
         else if int (length seg) \<noteq> max_seq_len then Inl AssertionError
         else Inr \<lparr>input_ids = ids, input_mask = mask, segment_ids = seg\<rparr>)"

text \<open>One iteration of the loop of \<open>preprocess_roberta\<close>.\<close>

definition roberta_example :: "tokenizer \<Rightarrow> int \<Rightarrow> string \<Rightarrow> py_error + InputFeatures" where
  "roberta_example tk max_seq_len sent0 =
     (let sent = '' '' @ py_join '' '' (py_split sent0);
          tokens0 = tokenize tk sent;
          tokens = (if int (length tokens0) > max_seq_len - 2
                    then py_slice_to (max_seq_len - 2) tokens0 else tokens0);
          ids0 = [0] @ convert_tokens_to_ids tk tokens @ [2];
          seg0 = py_repeat 0 (int (length ids0));
          mask0 = py_repeat 1 (int (length ids0));
          padding_length = max_seq_len - int (length ids0);
          ids = (if padding_length > 0 then ids0 @ py_repeat 1 padding_length else ids0);
          mask = (if padding_length > 0 then mask0 @ py_repeat 0 padding_length else mask0);
          seg = (if padding_length > 0 then seg0 @ py_repeat 0 padding_length else seg0)
      in if int (length ids) \<noteq> max_seq_len then Inl AssertionError
         else if int (length mask) \<noteq> max_seq_len then Inl AssertionError
         else if int (length seg) \<noteq> max_seq_len then Inl AssertionError
         else Inr \<lparr>input_ids = ids, input_mask = mask, segment_ids = seg\<rparr>)"

text \<open>
  The loop over the sentences: features are appended in order, and a failed assertion
  leaves the function at once.
\<close>

fun collect_features ::
  "(string \<Rightarrow> py_error + InputFeatures) \<Rightarrow> string list \<Rightarrow> py_error + InputFeatures list" where
  "collect_features f [] = Inr []"
| "collect_features f (s # ss) =
     (case f s of
        Inl e \<Rightarrow> Inl e
      | Inr x \<Rightarrow> (case collect_features f ss of Inl e \<Rightarrow> Inl e | Inr xs \<Rightarrow> Inr (x # xs)))"

definition preprocess_bert ::
  "string list \<Rightarrow> int \<Rightarrow> tokenizer \<Rightarrow> py_error + InputFeatures list" where
  "preprocess_bert sents max_seq_len tk = collect_features (bert_example tk max_seq_len) sents"

definition preprocess_roberta ::
  "string list \<Rightarrow> int \<Rightarrow> tokenizer \<Rightarrow> py_error + InputFeatures list" where
  "preprocess_roberta sents max_seq_len tk =
     collect_features (roberta_example tk max_seq_len) sents"

text \<open>The padding invariant of one example.\<close>

definition padded_to :: "int \<Rightarrow> InputFeatures \<Rightarrow> bool" where
  "padded_to n f =
     (int (length (input_ids f)) = n \<and> int (length (input_mask f)) = n
      \<and> int (length (segment_ids f)) = n)"

text \<open>
  A small tokenizer for concrete runs: tokens are the whitespace-separated words, the
  two BERT markers have the ids 101 and 102, and any other token has the id
  \<open>1000 + its length\<close>.
\<close>

definition example_token_id :: "string \<Rightarrow> int" where
  "example_token_id t =
     (if t = ''[CLS]'' then 101 else if t = ''[SEP]'' then 102 else 1000 + int (length t))"

definition example_tokenizer :: tokenizer where
  "example_tokenizer = \<lparr>tokenize = py_split, convert_tokens_to_ids = map example_token_id\<rparr>"

section \<open>Strings and dictionaries\<close>

text \<open>\<open>s.startswith(p)\<close> and \<open>sub in s\<close>.\<close>

definition startswith :: "string \<Rightarrow> string \<Rightarrow> bool" where
  "startswith s p = prefix p s"

definition contains :: "string \<Rightarrow> string \<Rightarrow> bool" where
  "contains sub s = sublist sub s"

text \<open>
  \<open>s.replace(old, new)\<close>: the occurrences of \<open>old\<close> are found from the left and do
  not overlap; an empty \<open>old\<close> matches before every character and at the end.
\<close>

fun str_replace :: "string \<Rightarrow> string \<Rightarrow> string \<Rightarrow> string" where
  "str_replace [] new s = new @ concat (map (\<lambda>c. c # new) s)"
| "str_replace (a # as) new [] = []"
| "str_replace (a # as) new (c # cs) =
     (if prefix (a # as) (c # cs)
      then new @ str_replace (a # as) new (drop (length (a # as)) (c # cs))
      else c # str_replace (a # as) new cs)"

text \<open>
  A Python dictionary keeps its keys in insertion order: an association list with
  distinct keys. \<open>d[k] = v\<close> is \<open>AList.update\<close> (in place for a key that is present,
  at the end otherwise); \<open>d.pop(k)\<close> raises \<open>KeyError\<close> for a key that is absent.
\<close>

type_synonym 'v state_dict = "(string \<times> 'v) list"

definition dict_pop :: "string \<Rightarrow> 'v state_dict \<Rightarrow> py_error + ('v \<times> 'v state_dict)" where
  "dict_pop k d =
     (case map_of d k of None \<Rightarrow> Inl KeyError | Some v \<Rightarrow> Inr (v, AList.delete k d))"

section \<open>entryX: \<open>ModelX.load\<close>, normalisation of the checkpoint keys\<close>

text \<open>The key under which one item of the checkpoint is stored in \<open>new_state_dict\<close>.\<close>

definition load_key :: "string \<Rightarrow> string" where
  "load_key key =
     (if startswith key ''module.'' then drop (length ''module.'') key
      else if startswith key ''model.'' then drop 6 key
      else if startswith key ''roberta.'' then drop 8 key
      else if startswith key ''albert.'' then drop 7 key
      else key)"

definition new_state_dict :: "'v state_dict \<Rightarrow> 'v state_dict" where
  "new_state_dict sd = fold (\<lambda>(key, v) d. AList.update (load_key key) v d) sd []"

definition wrapper_prefixes :: "string list" where
  "wrapper_prefixes = [''module.'', ''model.'', ''roberta.'', ''albert.'']"

section \<open>modeling_bertU: \<open>from_pretrained\<close>, legacy renaming of the keys\<close>

text \<open>
  The body of the first loop: \<open>new_key\<close> starts as \<open>None\<close> and each of the three
  tests assigns it again, from \<open>key\<close>.
\<close>

definition legacy_new_key :: "string \<Rightarrow> string option" where
  "legacy_new_key key =
     (let new_key = None;
          new_key = (if contains ''gamma'' key
                     then Some (str_replace ''gamma'' ''weight'' key) else new_key);
          new_key = (if contains ''beta'' key
                     then Some (str_replace ''beta'' ''bias'' key) else new_key);
          new_key = (if contains ''uniter.'' key
                     then Some (str_replace ''uniter.'' [] key) else new_key)
      in new_key)"

text \<open>\<open>if new_key:\<close> holds for a string that is neither \<open>None\<close> nor empty.\<close>

definition truthy :: "string option \<Rightarrow> bool" where
  "truthy k = (case k of None \<Rightarrow> False | Some s \<Rightarrow> s \<noteq> [])"

text \<open>The lists \<open>old_keys\<close> and \<open>new_keys\<close> after the first loop, zipped.\<close>

fun rename_pairs :: "string list \<Rightarrow> (string \<times> string) list" where
  "rename_pairs [] = []"
| "rename_pairs (key # keys) =
     (if truthy (legacy_new_key key) then (key, the (legacy_new_key key)) # rename_pairs keys
      else rename_pairs keys)"

text \<open>The second loop: \<open>state_dict[new_key] = state_dict.pop(old_key)\<close>.\<close>

fun apply_renames :: "(string \<times> string) list \<Rightarrow> 'v state_dict \<Rightarrow> py_error + 'v state_dict" where
  "apply_renames [] d = Inr d"
| "apply_renames ((old_key, new_key) # ps) d =
     (case dict_pop old_key d of
        Inl e \<Rightarrow> Inl e
      | Inr (v, d') \<Rightarrow> apply_renames ps (AList.update new_key v d'))"

definition legacy_rename :: "'v state_dict \<Rightarrow> py_error + 'v state_dict" where
  "legacy_rename sd = apply_renames (rename_pairs (map fst sd)) sd"

section \<open>Tensors\<close>

text \<open>
  A tensor is a nested list in row-major order; the scalars are real numbers. Library
  operations that raise on a wrong shape or index return \<open>Inl\<close>.
\<close>

type_synonym 'a tensor2 = "'a list list"
type_synonym 'a tensor3 = "'a list list list"
type_synonym 'a tensor4 = "'a list list list list"

definition err_bind :: "py_error + 'a \<Rightarrow> ('a \<Rightarrow> py_error + 'b) \<Rightarrow> py_error + 'b" where
  "err_bind x f = (case x of Inl e \<Rightarrow> Inl e | Inr v \<Rightarrow> f v)"

text \<open>
  \<open>nn.Embedding\<close>: a table with one row per id; an id outside the table raises
  \<open>IndexError\<close>.
\<close>

definition embedding :: "'a list list \<Rightarrow> int list list \<Rightarrow> py_error + 'a tensor3" where
  "embedding table ids =
     (if list_all (list_all (\<lambda>i. 0 \<le> i \<and> i < int (length table))) ids
      then Inr (map (map (\<lambda>i. table ! nat i)) ids)
      else Inl IndexError)"

text \<open>
  \<open>torch.cat([a, b], dim=1)\<close> of two tensors of three dimensions: the batch sizes and
  the widths of all vectors have to agree.
\<close>

definition same_width :: "'a tensor3 \<Rightarrow> 'a tensor3 \<Rightarrow> bool" where
  "same_width a b =
     (case concat a @ concat b of
        [] \<Rightarrow> True
      | v # vs \<Rightarrow> list_all (\<lambda>w. length w = length v) vs)"

definition torch_cat_dim1 :: "'a tensor3 \<Rightarrow> 'a tensor3 \<Rightarrow> py_error + 'a tensor3" where
  "torch_cat_dim1 a b =
     (if length a = length b \<and> same_width a b then Inr (map2 (@) a b) else Inl RuntimeError)"

text \<open>\<open>g.unsqueeze(-1).expand(-1, -1, n)\<close>: every index is repeated \<open>n\<close> times.\<close>

definition unsqueeze_expand :: "nat \<Rightarrow> int list list \<Rightarrow> int tensor3" where
  "unsqueeze_expand n g = map (map (replicate n)) g"

text \<open>
  \<open>torch.gather(input, dim=1, index)\<close>: the result has the shape of \<open>index\<close> and
  \<open>out[b][k][h] = input[b][index[b][k][h]][h]\<close>. The index may not be larger than the
  input in the dimensions 0 and 2, and every entry has to be a position of dimension 1.
\<close>

definition gather_ok :: "'a tensor3 \<Rightarrow> int tensor3 \<Rightarrow> bool" where
  "gather_ok inp index =
     (length index \<le> length inp
      \<and> list_all (\<lambda>(rows, idxs).
           list_all (\<lambda>idx.
             list_all (\<lambda>(h, i). 0 \<le> i \<and> i < int (length rows) \<and> h < length (rows ! nat i))
               (zip [0..<length idx] idx)) idxs)
         (zip inp index))"

definition torch_gather_dim1 :: "'a tensor3 \<Rightarrow> int tensor3 \<Rightarrow> py_error + 'a tensor3" where
  "torch_gather_dim1 inp index =
     (if gather_ok inp index
      then Inr (map2 (\<lambda>rows idxs.
                  map (\<lambda>idx. map2 (\<lambda>h i. rows ! nat i ! h) [0..<length idx] idx) idxs)
                inp index)
      else Inl RuntimeError)"

section \<open>modeling_bertU: the embedding modules and \<open>BertU\<close>\<close>

text \<open>
  The learnt library modules (\<open>nn.Linear\<close>, layer normalisation, dropout) are
  functions on tensors; the three embedding tables of the text tower are tables.
\<close>

record UniterTextEmbeddings =
  word_embeddings :: "real list list"
  position_embeddings :: "real list list"
  token_type_embeddings :: "real list list"
  txt_LayerNorm :: "real tensor3 \<Rightarrow> real tensor3"
  txt_dropout :: "real tensor3 \<Rightarrow> real tensor3"
  position_ids_buffer :: "int list list"

record UniterImageEmbeddings =
  img_linear :: "real tensor3 \<Rightarrow> py_error + real tensor3"
  img_layer_norm :: "real tensor3 \<Rightarrow> real tensor3"
  pos_layer_norm :: "real tensor3 \<Rightarrow> real tensor3"
  pos_linear :: "real tensor3 \<Rightarrow> py_error + real tensor3"
  img_LayerNorm :: "real tensor3 \<Rightarrow> real tensor3"
  img_dropout :: "real tensor3 \<Rightarrow> real tensor3"

text \<open>
  The sum of two tensors with broadcasting: in every dimension the sizes agree or one
  of them is 1.
\<close>

fun collect_errors :: "(py_error + 'a) list \<Rightarrow> py_error + 'a list" where
  "collect_errors [] = Inr []"
| "collect_errors (Inl e # xs) = Inl e"
| "collect_errors (Inr v # xs) =
     (case collect_errors xs of Inl e \<Rightarrow> Inl e | Inr vs \<Rightarrow> Inr (v # vs))"

definition broadcast2 ::
  "('a \<Rightarrow> 'b \<Rightarrow> py_error + 'c) \<Rightarrow> 'a list \<Rightarrow> 'b list \<Rightarrow> py_error + 'c list" where
  "broadcast2 f xs ys =
     (if length xs = length ys then collect_errors (map2 f xs ys)
      else if length xs = 1 then collect_errors (map (f (hd xs)) ys)
      else if length ys = 1 then collect_errors (map (\<lambda>x. f x (hd ys)) xs)
      else Inl RuntimeError)"

definition add3 :: "real tensor3 \<Rightarrow> real tensor3 \<Rightarrow> py_error + real tensor3" where
  "add3 = broadcast2 (broadcast2 (broadcast2 (\<lambda>x y. Inr (x + y))))"

definition add4 :: "real tensor4 \<Rightarrow> real tensor4 \<Rightarrow> py_error + real tensor4" where
  "add4 = broadcast2 (broadcast2 (broadcast2 (broadcast2 (\<lambda>x y. Inr (x + y)))))"

text \<open>
  \<open>UniterTextEmbeddings.forward(input_ids, position_ids, token_type_ids)\<close>, as
  \<open>_compute_txt_embeddings\<close> calls it (without \<open>inputs_embeds\<close>).
\<close>

definition UniterTextEmbeddings_forward ::
  "UniterTextEmbeddings \<Rightarrow> int list list \<Rightarrow> int list list option \<Rightarrow> int list list option
   \<Rightarrow> py_error + real tensor3" where
  "UniterTextEmbeddings_forward te ids position_ids token_type_ids =
     (let seq_length = (case ids of [] \<Rightarrow> 0 | r # _ \<Rightarrow> length r);
          position_ids = (case position_ids of
                            None \<Rightarrow> map (take seq_length) (position_ids_buffer te)
                          | Some p \<Rightarrow> p);
          token_type_ids = (case token_type_ids of
                              None \<Rightarrow> map (map (\<lambda>_. 0)) ids
                            | Some t \<Rightarrow> t)
      in err_bind (embedding (word_embeddings te) ids) (\<lambda>inputs_embeds.
         err_bind (embedding (position_embeddings te) position_ids) (\<lambda>pos_emb.
         err_bind (embedding (token_type_embeddings te) token_type_ids) (\<lambda>type_emb.
         let pos_emb = concat (replicate (length type_emb) pos_emb) in
         err_bind (add3 inputs_embeds pos_emb) (\<lambda>s.
         err_bind (add3 s type_emb) (\<lambda>e.
         Inr (txt_dropout te (txt_LayerNorm te e))))))))"

definition UniterImageEmbeddings_forward ::
  "UniterImageEmbeddings \<Rightarrow> real tensor3 \<Rightarrow> real tensor3 \<Rightarrow> real tensor3
   \<Rightarrow> py_error + real tensor3" where
  "UniterImageEmbeddings_forward ie img_feat img_pos_feat type_embeddings =
     err_bind (img_linear ie img_feat) (\<lambda>im.
     err_bind (pos_linear ie img_pos_feat) (\<lambda>pos.
     let transformed_im = img_layer_norm ie im;
         transformed_pos = pos_layer_norm ie pos in
     err_bind (add3 transformed_im transformed_pos) (\<lambda>s.
     err_bind (add3 s type_embeddings) (\<lambda>e.
     Inr (img_dropout ie (img_LayerNorm ie e))))))"

text \<open>
  \<open>BertSelfAttention.forward\<close>. The product of the query and key layers (the raw
  attention scores) and the steps after the mask has been added (softmax, dropout,
  product with the value layer, reshaping) are functions of the module.
\<close>

record BertSelfAttention =
  attention_head_size :: nat
  raw_attention_scores :: "real tensor3 \<Rightarrow> py_error + real tensor4"
  attend :: "real tensor4 \<Rightarrow> real tensor3 \<Rightarrow> py_error + real tensor3"

definition scale_scores :: "nat \<Rightarrow> real tensor4 \<Rightarrow> real tensor4" where
  "scale_scores d s = map (map (map (map (\<lambda>x. x / sqrt (real d))))) s"

definition BertSelfAttention_forward ::
  "BertSelfAttention \<Rightarrow> real tensor3 \<Rightarrow> real tensor4 \<Rightarrow> py_error + real tensor3" where
  "BertSelfAttention_forward att hidden_states attention_mask =
     err_bind (raw_attention_scores att hidden_states) (\<lambda>attention_scores.
     let attention_scores = scale_scores (attention_head_size att) attention_scores in
     err_bind (add4 attention_scores attention_mask) (\<lambda>attention_scores.
     attend att attention_scores hidden_states))"

record BertLayer =
  self_attention :: BertSelfAttention
  self_output :: "real tensor3 \<Rightarrow> real tensor3 \<Rightarrow> py_error + real tensor3"
  intermediate :: "real tensor3 \<Rightarrow> py_error + real tensor3"
  layer_output :: "real tensor3 \<Rightarrow> real tensor3 \<Rightarrow> py_error + real tensor3"

definition BertAttention_forward ::
  "BertLayer \<Rightarrow> real tensor3 \<Rightarrow> real tensor4 \<Rightarrow> py_error + real tensor3" where
  "BertAttention_forward l input_tensor attention_mask =
     err_bind (BertSelfAttention_forward (self_attention l) input_tensor attention_mask)
       (\<lambda>self_out. self_output l self_out input_tensor)"

definition BertLayer_forward ::
  "BertLayer \<Rightarrow> real tensor3 \<Rightarrow> real tensor4 \<Rightarrow> py_error + real tensor3" where
  "BertLayer_forward l hidden_states attention_mask =
     err_bind (BertAttention_forward l hidden_states attention_mask) (\<lambda>attention_output.
     err_bind (intermediate l attention_output) (\<lambda>intermediate_output.
     layer_output l intermediate_output attention_output))"

text \<open>
  \<open>UniterEncoder.forward\<close>: the loop over the layers returns the hidden states it
  appended and the last hidden state.
\<close>

fun encoder_loop ::
  "BertLayer list \<Rightarrow> real tensor3 \<Rightarrow> real tensor4 \<Rightarrow> bool
   \<Rightarrow> py_error + (real tensor3 list \<times> real tensor3)" where
  "encoder_loop [] hidden_states attention_mask output_all = Inr ([], hidden_states)"
| "encoder_loop (layer_module # layers) hidden_states attention_mask output_all =
     err_bind (BertLayer_forward layer_module hidden_states attention_mask) (\<lambda>h.
     err_bind (encoder_loop layers h attention_mask output_all) (\<lambda>(all_layers, last).
     Inr (if output_all then h # all_layers else all_layers, last)))"

definition UniterEncoder_forward ::
  "BertLayer list \<Rightarrow> real tensor3 \<Rightarrow> real tensor4 \<Rightarrow> bool \<Rightarrow> py_error + real tensor3 list" where
  "UniterEncoder_forward layers input attention_mask output_all_encoded_layers =
     err_bind (encoder_loop layers input attention_mask output_all_encoded_layers)
       (\<lambda>(all_encoder_layers, hidden_states).
          Inr (if \<not> output_all_encoded_layers then all_encoder_layers @ [hidden_states]
               else all_encoder_layers))"

text \<open>\<open>BertPooler.forward\<close>: the hidden state of the first token, a dense layer, tanh.\<close>

definition BertPooler_forward ::
  "(real tensor2 \<Rightarrow> py_error + real tensor2) \<Rightarrow> real tensor3 \<Rightarrow> py_error + real tensor2" where
  "BertPooler_forward dense hidden_states =
     (if list_ex (\<lambda>s. s = []) hidden_states then Inl IndexError
      else err_bind (dense (map hd hidden_states)) (\<lambda>pooled. Inr (map (map tanh) pooled)))"

record BertU =
  config_hidden_size :: nat
  embeddings :: UniterTextEmbeddings
  img_embeddings :: UniterImageEmbeddings
  encoder :: "BertLayer list"
  pooler_dense :: "real tensor2 \<Rightarrow> py_error + real tensor2"

definition compute_txt_embeddings ::
  "BertU \<Rightarrow> int list list \<Rightarrow> int list list option \<Rightarrow> int list list option
   \<Rightarrow> py_error + real tensor3" where
  "compute_txt_embeddings m ids position_ids txt_type_ids =
     UniterTextEmbeddings_forward (embeddings m) ids position_ids txt_type_ids"

text \<open>
  \<open>_compute_img_embeddings\<close>. \<open>img_feat[:, :, 0]\<close> raises for a missing \<open>img_feat\<close>
  and for feature vectors without a component 0.
\<close>

definition default_img_type_ids :: "real tensor3 option \<Rightarrow> py_error + int list list" where
  "default_img_type_ids img_feat =
     (case img_feat of
        None \<Rightarrow> Inl TypeError
      | Some f \<Rightarrow> if list_ex (list_ex (\<lambda>v. v = [])) f then Inl IndexError
                  else Inr (map (map (\<lambda>_. 1)) f))"

definition compute_img_embeddings ::
  "BertU \<Rightarrow> real tensor3 option \<Rightarrow> real tensor3 option \<Rightarrow> int list list option
   \<Rightarrow> py_error + real tensor3" where
  "compute_img_embeddings m img_feat img_pos_feat img_type_ids =
     err_bind (case img_type_ids of None \<Rightarrow> default_img_type_ids img_feat | Some t \<Rightarrow> Inr t)
       (\<lambda>img_type_ids.
     err_bind (embedding (token_type_embeddings (embeddings m)) img_type_ids)
       (\<lambda>img_type_embeddings.
     case (img_feat, img_pos_feat) of
       (Some f, Some p) \<Rightarrow>
          UniterImageEmbeddings_forward (img_embeddings m) f p img_type_embeddings
     | _ \<Rightarrow> Inl TypeError))"

definition compute_img_txt_embeddings ::
  "BertU \<Rightarrow> int list list \<Rightarrow> int list list option \<Rightarrow> real tensor3 option
   \<Rightarrow> real tensor3 option \<Rightarrow> int list list option \<Rightarrow> int list list option
   \<Rightarrow> int list list option \<Rightarrow> py_error + real tensor3" where
  "compute_img_txt_embeddings m ids position_ids img_feat img_pos_feat gather_index
       txt_type_ids img_type_ids =
     err_bind (compute_txt_embeddings m ids position_ids txt_type_ids) (\<lambda>txt_emb.
     err_bind (compute_img_embeddings m img_feat img_pos_feat img_type_ids) (\<lambda>img_emb.
     err_bind (case gather_index of
                 None \<Rightarrow> Inl AttributeError
               | Some g \<Rightarrow> Inr (unsqueeze_expand (config_hidden_size m) g)) (\<lambda>gather_index.
     err_bind (torch_cat_dim1 txt_emb img_emb) (\<lambda>cat.
     torch_gather_dim1 cat gather_index))))"

text \<open>
  \<open>BertU.forward\<close>. The extended mask is \<open>attention_mask.unsqueeze(1).unsqueeze(2)\<close>,
  converted to the type of the parameters, then \<open>(1.0 - mask) * -10000.0\<close>.
\<close>

definition extended_attention_mask :: "real list list \<Rightarrow> real tensor4" where
  "extended_attention_mask attention_mask =
     map (map (map (map (\<lambda>x. (1 - x) * (- 10000)))))
       (map (\<lambda>row. [[row]]) attention_mask)"

definition embedding_layer ::
  "BertU \<Rightarrow> int list list option \<Rightarrow> int list list option \<Rightarrow> real tensor3 option
   \<Rightarrow> real tensor3 option \<Rightarrow> int list list option \<Rightarrow> int list list option
   \<Rightarrow> int list list option \<Rightarrow> py_error + real tensor3" where
  "embedding_layer m input_ids' position_ids img_feat img_pos_feat gather_index
       txt_type_ids img_type_ids =
     (case input_ids' of
        None \<Rightarrow> compute_img_embeddings m img_feat img_pos_feat img_type_ids
      | Some ids \<Rightarrow>
          (case img_feat of
             None \<Rightarrow> compute_txt_embeddings m ids position_ids txt_type_ids
           | Some f \<Rightarrow> compute_img_txt_embeddings m ids position_ids img_feat img_pos_feat
                        gather_index txt_type_ids img_type_ids))"

text \<open>
  The part of \<open>forward\<close> after the embedding layer: the encoder, the choice of the
  last layer, the pooler. With \<open>output_all_encoded_layers\<close> the pooler indexes a
  Python list with \<open>[:, 0]\<close>, which raises.
\<close>

definition encode_and_pool ::
  "BertU \<Rightarrow> real tensor4 \<Rightarrow> bool \<Rightarrow> real tensor3
   \<Rightarrow> py_error + (real tensor3 \<times> real tensor2)" where
  "encode_and_pool m extended output_all_encoded_layers embedding_output =
     err_bind (UniterEncoder_forward (encoder m) embedding_output extended
                 output_all_encoded_layers) (\<lambda>encoded_layers.
     if output_all_encoded_layers then Inl TypeError
     else err_bind (BertPooler_forward (pooler_dense m) (last encoded_layers))
            (\<lambda>pooled_output. Inr (last encoded_layers, pooled_output)))"

definition BertU_forward ::
  "BertU \<Rightarrow> int list list option \<Rightarrow> int list list option \<Rightarrow> real tensor3 option
   \<Rightarrow> real tensor3 option \<Rightarrow> real list list \<Rightarrow> int list list option \<Rightarrow> bool
   \<Rightarrow> int list list option \<Rightarrow> int list list option
   \<Rightarrow> py_error + (real tensor3 \<times> real tensor2)" where
  "BertU_forward m input_ids' position_ids img_feat img_pos_feat attention_mask gather_index
       output_all_encoded_layers txt_type_ids img_type_ids =
     (let extended = extended_attention_mask attention_mask in
      err_bind (embedding_layer m input_ids' position_ids img_feat img_pos_feat gather_index
                  txt_type_ids img_type_ids)
        (encode_and_pool m extended output_all_encoded_layers))"

text \<open>
  A small model for concrete runs: hidden size 2, three words, four positions, two
  token types, normalisation and dropout as the identity, linear layers that keep the
  first two components, no encoder layer.
\<close>

definition example_text_embeddings :: UniterTextEmbeddings where
  "example_text_embeddings =
     \<lparr>word_embeddings = [[0, 0], [1, 2], [3, 4]],
      position_embeddings = [[10, 10], [20, 20], [30, 30], [40, 40]],
      token_type_embeddings = [[100, 100], [200, 200]],
      txt_LayerNorm = (\<lambda>t. t),
      txt_dropout = (\<lambda>t. t),
      position_ids_buffer = [[0, 1, 2, 3]]\<rparr>"

definition example_image_embeddings :: UniterImageEmbeddings where
  "example_image_embeddings =
     \<lparr>img_linear = (\<lambda>t. Inr (map (map (take 2)) t)),
      img_layer_norm = (\<lambda>t. t),
      pos_layer_norm = (\<lambda>t. t),
      pos_linear = (\<lambda>t. Inr (map (map (take 2)) t)),
      img_LayerNorm = (\<lambda>t. t),
      img_dropout = (\<lambda>t. t)\<rparr>"

definition example_model :: BertU where
  "example_model =
     \<lparr>config_hidden_size = 2,
      embeddings = example_text_embeddings,
      img_embeddings = example_image_embeddings,
      encoder = [],
      pooler_dense = Inr\<rparr>"

section \<open>Checkpoints: tensors of any rank, the module tree\<close>

text \<open>
  The values of a state dictionary are tensors of any rank, as nested lists. The
  shape of a tensor is read along the first elements (the tensors are rectangular).
\<close>

datatype tensor = Scalar real | Nested "tensor list"

fun shape :: "tensor \<Rightarrow> nat list" where
  "shape (Scalar x) = []"
| "shape (Nested []) = [0]"
| "shape (Nested (t # ts)) = Suc (length ts) # shape t"

fun elems :: "tensor \<Rightarrow> tensor list" where
  "elems (Scalar x) = []"
| "elems (Nested ts) = ts"

text \<open>\<open>t[0]\<close> and \<open>t[:, :n]\<close>; indexing more dimensions than there are raises.\<close>

fun index0 :: "tensor \<Rightarrow> py_error + tensor" where
  "index0 (Scalar x) = Inl IndexError"
| "index0 (Nested []) = Inl IndexError"
| "index0 (Nested (t # ts)) = Inr t"

fun slice_row :: "nat \<Rightarrow> tensor \<Rightarrow> py_error + tensor" where
  "slice_row n (Scalar x) = Inl IndexError"
| "slice_row n (Nested cols) = Inr (Nested (take n cols))"

fun slice_cols :: "nat \<Rightarrow> tensor \<Rightarrow> py_error + tensor" where
  "slice_cols n (Scalar x) = Inl IndexError"
| "slice_cols n (Nested rows) =
     err_bind (collect_errors (map (slice_row n) rows)) (\<lambda>rs. Inr (Nested rs))"

text \<open>
  A module of the target tree: its own parameters and persistent buffers by name, each
  with its shape (\<open>None\<close> for a parameter that is \<open>None\<close>), and its child modules by
  name (\<open>None\<close> for a child that is \<open>None\<close>), both in the order of registration.
\<close>

datatype module =
  Module (parameters: "(string \<times> nat list option) list")
         (modules: "(string \<times> module option) list")

text \<open>
  \<open>hasattr(model, name)\<close>, as far as the tree decides it: a parameter, buffer or
  child of that name.
\<close>

definition hasattr :: "module \<Rightarrow> string \<Rightarrow> bool" where
  "hasattr m name = (name \<in> set (map fst (parameters m)) \<or> name \<in> set (map fst (modules m)))"

text \<open>
  The width of the input of \<open>pos_linear\<close> that \<open>UniterImageEmbeddings.__init__\<close>
  builds, from \<open>args.num_pos\<close>.
\<close>

definition pos_linear_in_features :: "int \<Rightarrow> nat" where
  "pos_linear_in_features num_pos = (if num_pos = 6 then 7 else 4)"

section \<open>modeling_bertU: \<open>from_pretrained\<close>, shapes and the walk over the tree\<close>

text \<open>
  The step after the renaming: the word embeddings are only reported (\<open>FOUND\<close>), the
  weight of \<open>pos_linear\<close> is replaced by its slice \<open>[:, :4]\<close>.
\<close>

definition reconcile_shapes :: "tensor state_dict \<Rightarrow> py_error + tensor state_dict" where
  "reconcile_shapes sd =
     (case map_of sd ''img_embeddings.pos_linear.weight'' of
        None \<Rightarrow> Inr sd
      | Some t \<Rightarrow> err_bind (slice_cols 4 t)
          (\<lambda>t'. Inr (AList.update ''img_embeddings.pos_linear.weight'' t' sd)))"

text \<open>
  The lists that the walk fills, the state dictionary it reads, and the parameters
  that were copied into the target, each under the key it was found at.
\<close>

datatype load_error = SizeMismatch string "nat list" "nat list"

record load_state =
  state_dict :: "tensor state_dict"
  missing_keys :: "string list"
  unexpected_keys :: "string list"
  error_msgs :: "load_error list"
  copied :: "(string \<times> tensor) list"

type_synonym metadata = "string \<Rightarrow> (string \<times> int) list option"

type_synonym loader =
  "module \<Rightarrow> string \<Rightarrow> (string \<times> int) list \<Rightarrow> load_state \<Rightarrow> py_error + load_state"

definition local_metadata :: "metadata option \<Rightarrow> string \<Rightarrow> (string \<times> int) list" where
  "local_metadata md pfx =
     (case md of
        None \<Rightarrow> []
      | Some f \<Rightarrow> (case f (butlast pfx) of None \<Rightarrow> [] | Some l \<Rightarrow> l))"

text \<open>
  The inner function \<open>load(module, prefix)\<close>: the module itself through its
  \<open>_load_from_state_dict\<close> (a method of the library, the parameter \<open>L\<close>), then every
  child that is not \<open>None\<close> with the prefix extended by its name and a dot.
\<close>

fun load :: "loader \<Rightarrow> metadata option \<Rightarrow> module \<Rightarrow> string \<Rightarrow> load_state \<Rightarrow> py_error + load_state"
  and load_children ::
    "loader \<Rightarrow> metadata option \<Rightarrow> (string \<times> module option) list \<Rightarrow> string \<Rightarrow> load_state
     \<Rightarrow> py_error + load_state" where
  "load L md (Module ps cs) pfx st =
     err_bind (L (Module ps cs) pfx (local_metadata md pfx) st)
       (load_children L md cs pfx)"
| "load_children L md [] pfx st = Inr st"
| "load_children L md ((name, None) # cs) pfx st = load_children L md cs pfx st"
| "load_children L md ((name, Some child) # cs) pfx st =
     err_bind (load L md child (pfx @ name @ ''.'') st) (load_children L md cs pfx)"

text \<open>
  The outcome of a load: the model was returned, the collected error messages were
  raised as one \<open>RuntimeError\<close>, or the library raised during the walk.
\<close>

datatype outcome = Loaded load_state | Failed "load_error list" | Raised py_error

definition start_prefix :: "module \<Rightarrow> tensor state_dict \<Rightarrow> string" where
  "start_prefix model sd =
     (if \<not> hasattr model ''bert'' \<and> list_ex (\<lambda>s. startswith s ''bert.'') (map fst sd)
      then ''bert.'' else [])"

definition initial_state :: "tensor state_dict \<Rightarrow> load_state" where
  "initial_state sd =
     \<lparr>state_dict = sd, missing_keys = [], unexpected_keys = [], error_msgs = [], copied = []\<rparr>"

definition walk :: "loader \<Rightarrow> module \<Rightarrow> tensor state_dict \<Rightarrow> metadata option
    \<Rightarrow> py_error + load_state" where
  "walk L model sd md = load L md model (start_prefix model sd) (initial_state sd)"

definition load_phase ::
  "loader \<Rightarrow> module \<Rightarrow> tensor state_dict \<Rightarrow> metadata option \<Rightarrow> outcome" where
  "load_phase L model sd md =
     (case walk L model sd md of
        Inl e \<Rightarrow> Raised e
      | Inr st \<Rightarrow> if length (error_msgs st) > 0 then Failed (error_msgs st) else Loaded st)"

definition from_pretrained ::
  "loader \<Rightarrow> module \<Rightarrow> tensor state_dict \<Rightarrow> metadata option \<Rightarrow> outcome" where
  "from_pretrained L model sd md =
     (case err_bind (legacy_rename sd) reconcile_shapes of
        Inl e \<Rightarrow> Raised e
      | Inr sd' \<Rightarrow> load_phase L model sd' md)"

section \<open>The library's \<open>_load_from_state_dict\<close>\<close>

text \<open>
  \<open>torch.nn.Module._load_from_state_dict\<close> with \<open>strict = True\<close>, as the walk calls it.
  It belongs to the library, not to the repository, and is written down here for the
  concrete runs and for the statements about the keys: every own parameter that is
  not \<open>None\<close> is looked up under \<open>prefix + name\<close>; a key that is absent is missing; a
  tensor of another shape gives an error message; otherwise the tensor is copied.
  Then every key of the dictionary that starts with the prefix and whose next
  component names neither a child nor an own parameter is unexpected.
\<close>

fun load_param :: "string \<Rightarrow> string \<times> nat list option \<Rightarrow> load_state \<Rightarrow> py_error + load_state" where
  "load_param pfx (name, None) st = Inr st"
| "load_param pfx (name, Some param_shape) st =
     (let key = pfx @ name in
      case map_of (state_dict st) key of
        None \<Rightarrow> Inr (st\<lparr>missing_keys := missing_keys st @ [key]\<rparr>)
      | Some input_param \<Rightarrow>
          err_bind (if param_shape = [] \<and> length (shape input_param) = 1
                    then index0 input_param else Inr input_param)
            (\<lambda>input_param.
               if shape input_param \<noteq> param_shape
               then Inr (st\<lparr>error_msgs := error_msgs st
                              @ [SizeMismatch key (shape input_param) param_shape]\<rparr>)
               else Inr (st\<lparr>copied := copied st @ [(key, input_param)]\<rparr>)))"

fun load_params ::
  "string \<Rightarrow> (string \<times> nat list option) list \<Rightarrow> load_state \<Rightarrow> py_error + load_state" where
  "load_params pfx [] st = Inr st"
| "load_params pfx (p # ps) st = err_bind (load_param pfx p st) (load_params pfx ps)"

definition local_state :: "module \<Rightarrow> string list" where
  "local_state m = [name. (name, Some s) \<leftarrow> parameters m]"

definition input_name :: "string \<Rightarrow> string \<Rightarrow> string" where
  "input_name pfx key = takeWhile (\<lambda>c. c \<noteq> CHR ''.'') (drop (length pfx) key)"

definition is_unexpected :: "module \<Rightarrow> string \<Rightarrow> string \<Rightarrow> bool" where
  "is_unexpected m pfx key =
     (startswith key pfx
      \<and> input_name pfx key \<notin> set (map fst (modules m))
      \<and> input_name pfx key \<notin> set (local_state m))"

definition torch_load_from_state_dict :: loader where
  "torch_load_from_state_dict m pfx local_md st =
     err_bind (load_params pfx (parameters m) st) (\<lambda>st.
       Inr (st\<lparr>unexpected_keys := unexpected_keys st
                  @ filter (is_unexpected m pfx) (map fst (state_dict st))\<rparr>))"

text \<open>
  The keys of \<open>model.state_dict()\<close> below a prefix: the own parameters that are not
  \<open>None\<close>, then the keys of the children that are not \<open>None\<close>. These are the keys the
  walk looks up.
\<close>

fun module_keys :: "string \<Rightarrow> module \<Rightarrow> string list"
  and children_keys :: "string \<Rightarrow> (string \<times> module option) list \<Rightarrow> string list" where
  "module_keys pfx (Module ps cs) =
     map (\<lambda>name. pfx @ name) (local_state (Module ps cs)) @ children_keys pfx cs"
| "children_keys pfx [] = []"
| "children_keys pfx ((name, None) # cs) = children_keys pfx cs"
| "children_keys pfx ((name, Some child) # cs) =
     module_keys (pfx @ name @ ''.'') child @ children_keys pfx cs"

section \<open>entryX: \<open>ModelX.load\<close>, the report and the load\<close>

text \<open>
  The two sets that \<open>ModelX.load\<close> prints (each in sorted order): the keys of the
  normalised checkpoint that the model does not have, and the keys of the model that
  the checkpoint does not have. Then \<open>load_state_dict(state_dict, strict=False)\<close> of
  the library walks the tree from the empty prefix.
\<close>

definition load_keys :: "tensor state_dict \<Rightarrow> string set" where
  "load_keys ckpt = set (map fst (new_state_dict ckpt))"

definition model_keys :: "module \<Rightarrow> string set" where
  "model_keys model = set (module_keys [] model)"

definition in_loaded_not_in_model :: "module \<Rightarrow> tensor state_dict \<Rightarrow> string set" where
  "in_loaded_not_in_model model ckpt = load_keys ckpt - model_keys model"

definition in_model_not_in_loaded :: "module \<Rightarrow> tensor state_dict \<Rightarrow> string set" where
  "in_model_not_in_loaded model ckpt = model_keys model - load_keys ckpt"

definition ModelX_load :: "loader \<Rightarrow> module \<Rightarrow> tensor state_dict \<Rightarrow> outcome" where
  "ModelX_load L model ckpt =
     (case load L None model [] (initial_state (new_state_dict ckpt)) of
        Inl e \<Rightarrow> Raised e
      | Inr st \<Rightarrow> if length (error_msgs st) > 0 then Failed (error_msgs st) else Loaded st)"

text \<open>
  Tensors, a target tree and checkpoints for concrete runs. The tree has the word
  embeddings and the buffer of position ids, the position projection of the image
  embeddings (width 4) and the dense layer of the pooler.
\<close>

definition vec :: "real list \<Rightarrow> tensor" where
  "vec xs = Nested (map Scalar xs)"

definition mat :: "real list list \<Rightarrow> tensor" where
  "mat rows = Nested (map vec rows)"

definition example_target :: module where
  "example_target =
     Module []
       [(''embeddings'', Some (Module [(''position_ids'', Some [1, 4])]
           [(''word_embeddings'', Some (Module [(''weight'', Some [3, 2])] []))])),
        (''img_embeddings'', Some (Module []
           [(''pos_linear'', Some (Module [(''weight'', Some [2, 4]), (''bias'', Some [2])] []))])),
        (''pooler'', Some (Module []
           [(''dense'', Some (Module [(''weight'', Some [2, 2]), (''bias'', Some [2])] []))]))]"

definition example_checkpoint :: "tensor state_dict" where
  "example_checkpoint =
     [(''bert.pooler.dense.weight'', mat [[1, 2], [3, 4]]),
      (''bert.pooler.dense.bias'', vec [5, 6]),
      (''bert.classifier.weight'', mat [[1, 1]]),
      (''cls.predictions.bias'', vec [7])]"

text \<open>
  For the accounting of the keys: the key an error message is about, and the keys of
  the target that the walk found in the dictionary (copied, or refused for their
  shape).
\<close>

fun error_key :: "load_error \<Rightarrow> string" where
  "error_key (SizeMismatch key s t) = key"

definition found_keys :: "load_state \<Rightarrow> string set" where
  "found_keys st = fst ` set (copied st) \<union> error_key ` set (error_msgs st)"

definition source_keys :: "load_state \<Rightarrow> string set" where
  "source_keys st = set (map fst (state_dict st))"

text \<open>
  What a part of the walk does with the target keys \<open>tk\<close> it looks up below the
  prefix \<open>p\<close>: the dictionary is not changed, the keys that are absent from it are
  added to the missing keys, the keys that are present are found, and only keys of
  the dictionary that start with the prefix are reported as unexpected.
\<close>

definition accounts :: "string \<Rightarrow> string list \<Rightarrow> load_state \<Rightarrow> load_state \<Rightarrow> bool" where
  "accounts p tk st st' =
     (state_dict st' = state_dict st
      \<and> set (missing_keys st') = set (missing_keys st) \<union> (set tk - source_keys st)
      \<and> found_keys st' = found_keys st \<union> (set tk \<inter> source_keys st)
      \<and> set (unexpected_keys st') \<subseteq>
          set (unexpected_keys st) \<union> {k \<in> source_keys st. startswith k p})"

text \<open>
  The state at the end of the walk for \<open>example_checkpoint\<close>, and a checkpoint with a
  bias of the wrong size, with the state at the end of its walk.
\<close>

definition example_loaded :: load_state where
  "example_loaded =
     \<lparr>state_dict = example_checkpoint,
      missing_keys = [''bert.embeddings.position_ids'',
        ''bert.embeddings.word_embeddings.weight'',
        ''bert.img_embeddings.pos_linear.weight'',
        ''bert.img_embeddings.pos_linear.bias''],
      unexpected_keys = [''bert.classifier.weight''],
      error_msgs = [],
      copied = [(''bert.pooler.dense.weight'', mat [[1, 2], [3, 4]]),
        (''bert.pooler.dense.bias'', vec [5, 6])]\<rparr>"

definition example_mismatch :: "tensor state_dict" where
  "example_mismatch =
     [(''pooler.dense.weight'', mat [[1, 2], [3, 4]]),
      (''pooler.dense.bias'', vec [5, 6, 7])]"

definition example_refused :: load_state where
  "example_refused =
     \<lparr>state_dict = example_mismatch,
      missing_keys = [''embeddings.position_ids'',
        ''embeddings.word_embeddings.weight'',
        ''img_embeddings.pos_linear.weight'',
        ''img_embeddings.pos_linear.bias''],
      unexpected_keys = [],
      error_msgs = [SizeMismatch ''pooler.dense.bias'' [3] [2]],
      copied = [(''pooler.dense.weight'', mat [[1, 2], [3, 4]])]\<rparr>"

text \<open>
  A checkpoint whose word embeddings have four rows, for the target with three.
\<close>

definition example_wide :: "tensor state_dict" where
  "example_wide =
     [(''embeddings.word_embeddings.weight'', mat [[1, 2], [3, 4], [5, 6], [7, 8]])]"

text \<open>
  A checkpoint whose position projection has seven columns, and the dictionary after
  the reconciliation.
\<close>

definition example_pos7 :: "tensor state_dict" where
  "example_pos7 =
     [(''img_embeddings.pos_linear.weight'',
         mat [[1, 2, 3, 4, 5, 6, 7], [8, 9, 10, 11, 12, 13, 14]]),
      (''img_embeddings.pos_linear.bias'', vec [0, 0])]"

definition example_pos4 :: "tensor state_dict" where
  "example_pos4 =
     [(''img_embeddings.pos_linear.weight'', mat [[1, 2, 3, 4], [8, 9, 10, 11]]),
      (''img_embeddings.pos_linear.bias'', vec [0, 0])]"




section \<open>Preprocessing: the padding invariant\<close>

lemma collect_features_all:
  assumes "collect_features f ss = Inr xs"
    and "\<And>s x. f s = Inr x \<Longrightarrow> P x"
  shows "list_all P xs"
  using assms(1)
proof (induction ss arbitrary: xs)
  case Nil
  then show ?case by simp
next
  case (Cons s ss)
  then show ?case
    using assms(2) by (auto split: sum.splits)
qed

lemma collect_features_total:
  assumes "\<And>s. \<exists>x. f s = Inr x"
  shows "\<exists>xs. collect_features f ss = Inr xs \<and> length xs = length ss"
proof (induction ss)
  case Nil
  then show ?case by simp
next
  case (Cons s ss)
  obtain x where "f s = Inr x" using assms by blast
  moreover obtain xs where "collect_features f ss = Inr xs" "length xs = length ss"
    using Cons by blast
  ultimately show ?case by simp
qed

lemma bert_example_padded: "bert_example tk n s = Inr f \<Longrightarrow> padded_to n f"
  by (auto simp: bert_example_def padded_to_def Let_def split: if_splits)

lemma roberta_example_padded: "roberta_example tk n s = Inr f \<Longrightarrow> padded_to n f"
  unfolding roberta_example_def padded_to_def Let_def
  by (auto split: if_splits)

lemma truncated_length:
  assumes "2 \<le> n"
  shows "int (length (if int (length ts) > n - 2 then py_slice_to (n - 2) ts else ts)) \<le> n - 2"
  using assms by (auto simp: py_slice_to_def)

lemma bert_example_total:
  assumes "2 \<le> n" and "\<And>ts. length (convert_tokens_to_ids tk ts) = length ts"
  shows "\<exists>f. bert_example tk n s = Inr f"
proof -
  define ts where "ts = tokenize tk (py_join '' '' (py_split s))"
  define tr where "tr = (if int (length ts) > n - 2 then py_slice_to (n - 2) ts else ts)"
  have "int (length tr) \<le> n - 2"
    unfolding tr_def using truncated_length [OF assms(1)] .
  then show ?thesis
    unfolding bert_example_def Let_def ts_def [symmetric] tr_def [symmetric]
    by (simp add: assms(2) py_repeat_def)
qed

lemma roberta_example_total:
  assumes "2 \<le> n" and "\<And>ts. length (convert_tokens_to_ids tk ts) = length ts"
  shows "\<exists>f. roberta_example tk n s = Inr f"
proof -
  define ts where "ts = tokenize tk ('' '' @ py_join '' '' (py_split s))"
  define tr where "tr = (if int (length ts) > n - 2 then py_slice_to (n - 2) ts else ts)"
  have "int (length tr) \<le> n - 2"
    unfolding tr_def using truncated_length [OF assms(1)] .
  then show ?thesis
    unfolding roberta_example_def Let_def ts_def [symmetric] tr_def [symmetric]
    by (auto simp add: assms(2) py_repeat_def)
qed

text \<open>
  Claim C8 (padding invariant). Whatever the sentences, the maximal length and the
  tokenizer, every example that \<open>preprocess_bert\<close> or \<open>preprocess_roberta\<close>
  returns has \<open>input_ids\<close>, \<open>input_mask\<close> and \<open>segment_ids\<close> of length exactly
  \<open>max_seq_len\<close>. Both functions do return, with one example per sentence, when
  \<open>max_seq_len\<close> is at least 2 and the tokenizer gives one id per token.
\<close>

theorem padding_invariant:
  "(\<forall>fs. preprocess_bert sents max_seq_len tk = Inr fs \<longrightarrow> list_all (padded_to max_seq_len) fs)
   \<and> (\<forall>fs. preprocess_roberta sents max_seq_len tk = Inr fs
          \<longrightarrow> list_all (padded_to max_seq_len) fs)
   \<and> (2 \<le> max_seq_len \<and> (\<forall>ts. length (convert_tokens_to_ids tk ts) = length ts)
        \<longrightarrow> (\<exists>fs. preprocess_bert sents max_seq_len tk = Inr fs \<and> length fs = length sents)
          \<and> (\<exists>fs. preprocess_roberta sents max_seq_len tk = Inr fs
                 \<and> length fs = length sents))"
proof (intro conjI allI impI)
  fix fs
  assume "preprocess_bert sents max_seq_len tk = Inr fs"
  then show "list_all (padded_to max_seq_len) fs"
    unfolding preprocess_bert_def
    by (rule collect_features_all) (rule bert_example_padded)
next
  fix fs
  assume "preprocess_roberta sents max_seq_len tk = Inr fs"
  then show "list_all (padded_to max_seq_len) fs"
    unfolding preprocess_roberta_def
    by (rule collect_features_all) (rule roberta_example_padded)
next
  assume h: "2 \<le> max_seq_len \<and> (\<forall>ts. length (convert_tokens_to_ids tk ts) = length ts)"
  show "\<exists>fs. preprocess_bert sents max_seq_len tk = Inr fs \<and> length fs = length sents"
    unfolding preprocess_bert_def
    by (rule collect_features_total) (use h in \<open>simp add: bert_example_total\<close>)
next
  assume h: "2 \<le> max_seq_len \<and> (\<forall>ts. length (convert_tokens_to_ids tk ts) = length ts)"
  show "\<exists>fs. preprocess_roberta sents max_seq_len tk = Inr fs \<and> length fs = length sents"
    unfolding preprocess_roberta_def
    by (rule collect_features_total) (use h in \<open>simp add: roberta_example_total\<close>)
qed

theorem padding_invariant_witness:
  "2 \<le> (8::int)
   \<and> (\<forall>ts. length (convert_tokens_to_ids example_tokenizer ts) = length ts)
   \<and> preprocess_bert [''a  big dog''] 8 example_tokenizer
       = Inr [\<lparr>input_ids = [101, 1001, 1003, 1003, 102, 0, 0, 0],
                input_mask = [1, 1, 1, 1, 1, 0, 0, 0],
                segment_ids = [0, 0, 0, 0, 0, 0, 0, 0]\<rparr>]
   \<and> preprocess_roberta [''a  big dog''] 8 example_tokenizer
       = Inr [\<lparr>input_ids = [0, 1001, 1003, 1003, 2, 1, 1, 1],
                input_mask = [1, 1, 1, 1, 1, 0, 0, 0],
                segment_ids = [0, 0, 0, 0, 0, 0, 0, 0]\<rparr>]
   \<and> list_all (padded_to 8) [\<lparr>input_ids = [101, 1001, 1003, 1003, 102, 0, 0, 0],
                input_mask = [1, 1, 1, 1, 1, 0, 0, 0],
                segment_ids = [0, 0, 0, 0, 0, 0, 0, 0]\<rparr>]
   \<and> list_all (padded_to 8) [\<lparr>input_ids = [0, 1001, 1003, 1003, 2, 1, 1, 1],
                input_mask = [1, 1, 1, 1, 1, 0, 0, 0],
                segment_ids = [0, 0, 0, 0, 0, 0, 0, 0]\<rparr>]"
proof -
  have b: "preprocess_bert [''a  big dog''] 8 example_tokenizer
       = Inr [\<lparr>input_ids = [101, 1001, 1003, 1003, 102, 0, 0, 0],
                input_mask = [1, 1, 1, 1, 1, 0, 0, 0],
                segment_ids = [0, 0, 0, 0, 0, 0, 0, 0]\<rparr>]"
    by code_simp
  have r: "preprocess_roberta [''a  big dog''] 8 example_tokenizer
       = Inr [\<lparr>input_ids = [0, 1001, 1003, 1003, 2, 1, 1, 1],
                input_mask = [1, 1, 1, 1, 1, 0, 0, 0],
                segment_ids = [0, 0, 0, 0, 0, 0, 0, 0]\<rparr>]"
    by code_simp
  have l: "\<forall>ts. length (convert_tokens_to_ids example_tokenizer ts) = length ts"
    by (simp add: example_tokenizer_def)
  show ?thesis
    using padding_invariant [of "[''a  big dog'']" 8 example_tokenizer] b r l by simp
qed

section \<open>Key renaming\<close>

lemma load_key_roundtrip:
  assumes "p \<in> set wrapper_prefixes" and "startswith key p"
  shows "p @ load_key key = key"
proof -
  from assms(2) obtain r where r: "key = p @ r"
    by (auto simp: startswith_def prefix_def)
  from assms(1) consider "p = ''module.''" | "p = ''model.''" | "p = ''roberta.''" | "p = ''albert.''"
    by (auto simp: wrapper_prefixes_def)
  then show ?thesis
    by cases (simp_all add: r load_key_def startswith_def)
qed

lemma str_replace_absent:
  "\<not> contains (a # as) s \<Longrightarrow> str_replace (a # as) new s = s"
  by (induction s) (auto simp: contains_def sublist_Cons_right)

lemma prefix_str_replace:
  assumes "new \<noteq> []" and "hd new \<notin> set p"
  shows "prefix p (str_replace (a # as) new s) \<Longrightarrow> prefix p s"
  using assms(2)
proof (induction p arbitrary: s)
  case Nil
  then show ?case by simp
next
  case (Cons x xs)
  show ?case
  proof (cases s)
    case Nil
    with Cons.prems show ?thesis by simp
  next
    case (Cons c cs)
    show ?thesis
    proof (cases "prefix (a # as) (c # cs)")
      case True
      with Cons.prems(1) Cons assms(1) have "x = hd new"
        by (cases new) auto
      with Cons.prems(2) show ?thesis by simp
    next
      case False
      with Cons.prems Cons.IH [of cs] Cons show ?thesis by auto
    qed
  qed
qed

lemma str_replace_gone:
  assumes new: "new \<noteq> []" "hd new \<notin> set as"
    and straddle: "\<And>r. \<not> sublist (a # as) r \<Longrightarrow> \<not> sublist (a # as) (new @ r)"
  shows "\<not> sublist (a # as) (str_replace (a # as) new s)"
proof (induction s rule: length_induct)
  case (1 s)
  show ?case
  proof (cases s)
    case Nil
    then show ?thesis by simp
  next
    case (Cons c cs)
    show ?thesis
    proof (cases "prefix (a # as) (c # cs)")
      case True
      have "length (drop (length (a # as)) (c # cs)) < length s" using Cons by simp
      with 1 have "\<not> sublist (a # as) (str_replace (a # as) new (drop (length (a # as)) (c # cs)))"
        by blast
      then have "\<not> sublist (a # as)
          (new @ str_replace (a # as) new (drop (length (a # as)) (c # cs)))"
        by (rule straddle)
      moreover have "str_replace (a # as) new (c # cs)
          = new @ str_replace (a # as) new (drop (length (a # as)) (c # cs))"
        using True by auto
      ultimately show ?thesis using Cons by simp
    next
      case False
      have "length cs < length s" using Cons by simp
      with 1 have ih: "\<not> sublist (a # as) (str_replace (a # as) new cs)" by blast
      have "\<not> prefix (a # as) (c # str_replace (a # as) new cs)"
      proof
        assume "prefix (a # as) (c # str_replace (a # as) new cs)"
        then have "a = c" and "prefix as (str_replace (a # as) new cs)"
          by (metis Cons_prefix_Cons)+
        then have "prefix as cs"
          using prefix_str_replace [OF new] by blast
        with \<open>a = c\<close> False show False by simp
      qed
      with ih have "\<not> sublist (a # as) (c # str_replace (a # as) new cs)"
        by (simp only: sublist_Cons_right simp_thms)
      moreover have "str_replace (a # as) new (c # cs) = c # str_replace (a # as) new cs"
        using False by auto
      ultimately show ?thesis using Cons by simp
    qed
  qed
qed

lemma gamma_gone: "\<not> contains ''gamma'' (str_replace ''gamma'' ''weight'' s)"
  unfolding contains_def
  by (rule str_replace_gone) (simp_all add: sublist_Cons_right)

lemma gamma_idem:
  "str_replace ''gamma'' ''weight'' (str_replace ''gamma'' ''weight'' s) = str_replace ''gamma'' ''weight'' s"
  using gamma_gone [of s] by (simp add: str_replace_absent)


text \<open>
  Claim C5 (key renaming algebra). For a key that starts with one of the wrapper
  prefixes \<open>module.\<close>, \<open>model.\<close>, \<open>roberta.\<close>, \<open>albert.\<close>, putting the prefix back in
  front of the key that \<open>ModelX.load\<close> stores gives the key again. The replacement of
  \<open>gamma\<close> by \<open>weight\<close> leaves a key without \<open>gamma\<close> as it is, its result has no
  \<open>gamma\<close>, and so applying it twice is applying it once.
\<close>

theorem key_renaming_algebra:
  "(\<forall>p \<in> set wrapper_prefixes. startswith key p \<longrightarrow> p @ load_key key = key)
   \<and> (\<not> contains ''gamma'' key \<longrightarrow> str_replace ''gamma'' ''weight'' key = key)
   \<and> \<not> contains ''gamma'' (str_replace ''gamma'' ''weight'' key)
   \<and> str_replace ''gamma'' ''weight'' (str_replace ''gamma'' ''weight'' key)
       = str_replace ''gamma'' ''weight'' key"
proof (intro conjI ballI impI)
  fix p
  assume "p \<in> set wrapper_prefixes" and "startswith key p"
  then show "p @ load_key key = key" by (rule load_key_roundtrip)
next
  assume "\<not> contains ''gamma'' key"
  then show "str_replace ''gamma'' ''weight'' key = key" by (rule str_replace_absent)
next
  show "\<not> contains ''gamma'' (str_replace ''gamma'' ''weight'' key)" by (rule gamma_gone)
next
  show "str_replace ''gamma'' ''weight'' (str_replace ''gamma'' ''weight'' key)
       = str_replace ''gamma'' ''weight'' key" by (rule gamma_idem)
qed

theorem key_renaming_algebra_witness:
  "''roberta.'' \<in> set wrapper_prefixes
   \<and> startswith ''roberta.encoder.LayerNorm.gamma'' ''roberta.''
   \<and> ''roberta.'' @ load_key ''roberta.encoder.LayerNorm.gamma'' = ''roberta.encoder.LayerNorm.gamma''
   \<and> \<not> contains ''gamma'' ''encoder.LayerNorm.weight''
   \<and> str_replace ''gamma'' ''weight'' ''encoder.LayerNorm.weight'' = ''encoder.LayerNorm.weight''"
proof -
  have a: "''roberta.'' \<in> set wrapper_prefixes"
    by (simp add: wrapper_prefixes_def)
  have b: "startswith ''roberta.encoder.LayerNorm.gamma'' ''roberta.''"
    by (simp add: startswith_def)
  have d: "\<not> contains ''gamma'' ''encoder.LayerNorm.weight''"
    by code_simp
  have r: "''roberta.'' @ load_key ''roberta.encoder.LayerNorm.gamma''
      = ''roberta.encoder.LayerNorm.gamma''"
    using key_renaming_algebra [of "''roberta.encoder.LayerNorm.gamma''"] a b by blast
  have w: "str_replace ''gamma'' ''weight'' ''encoder.LayerNorm.weight''
      = ''encoder.LayerNorm.weight''"
    using key_renaming_algebra [of "''encoder.LayerNorm.weight''"] d by blast
  from a b r d w show ?thesis by blast
qed

section \<open>Legacy renaming: the last matching pattern decides\<close>

lemma legacy_new_key_cases:
  "legacy_new_key key =
     (if contains ''uniter.'' key then Some (str_replace ''uniter.'' [] key)
      else if contains ''beta'' key then Some (str_replace ''beta'' ''bias'' key)
      else if contains ''gamma'' key then Some (str_replace ''gamma'' ''weight'' key)
      else None)"
  by (simp add: legacy_new_key_def)

lemma str_replace_skip:
  "set xs \<inter> set (a # as) = {} \<Longrightarrow>
   str_replace (a # as) new (xs @ r) = xs @ str_replace (a # as) new r"
  by (induction xs) auto

lemma sublist_drop_disjoint:
  assumes pre: "prefix old s" and sub: "sublist sub s" and ne: "sub \<noteq> []"
    and dis: "set sub \<inter> set old = {}"
  shows "sublist sub (drop (length old) s)"
proof -
  from sub obtain ps ss where s: "s = ps @ sub @ ss" by (auto simp: sublist_def)
  from pre obtain r where r: "s = old @ r" by (auto simp: prefix_def)
  have "length old \<le> length ps"
  proof (rule ccontr)
    assume "\<not> length old \<le> length ps"
    then have lt: "length ps < length old" by simp
    have "s ! length ps = hd sub"
      using ne by (simp add: s nth_append hd_conv_nth)
    moreover have "s ! length ps = old ! length ps"
      using lt by (simp add: r nth_append)
    ultimately have "hd sub \<in> set old" using lt by (metis nth_mem)
    moreover have "hd sub \<in> set sub" using ne by simp
    ultimately show False using dis by blast
  qed
  then have "drop (length old) s = drop (length old) ps @ sub @ ss"
    by (simp add: s)
  then show ?thesis by (auto simp: sublist_def)
qed

lemma str_replace_keeps:
  assumes dis: "set sub \<inter> set (a # as) = {}"
  shows "sublist sub s \<Longrightarrow> sublist sub (str_replace (a # as) new s)"
proof (induction s rule: length_induct)
  case (1 s)
  show ?case
  proof (cases "sub = []")
    case True
    then show ?thesis by simp
  next
    case ne: False
    show ?thesis
    proof (cases s)
      case Nil
      with 1 show ?thesis by simp
    next
      case (Cons c cs)
      show ?thesis
      proof (cases "prefix (a # as) (c # cs)")
        case True
        let ?d = "drop (length (a # as)) (c # cs)"
        have "sublist sub ?d"
          using sublist_drop_disjoint [OF True _ ne dis] 1(2) Cons by blast
        moreover have "length ?d < length s" using Cons by simp
        ultimately have "sublist sub (str_replace (a # as) new ?d)" using 1(1) by blast
        then have "sublist sub (new @ str_replace (a # as) new ?d)"
          by (metis sublist_append)
        moreover have "str_replace (a # as) new (c # cs) = new @ str_replace (a # as) new ?d"
          using True by auto
        ultimately show ?thesis using Cons by simp
      next
        case False
        have eq: "str_replace (a # as) new (c # cs) = c # str_replace (a # as) new cs"
          using False by auto
        from 1(2) Cons have "prefix sub (c # cs) \<or> sublist sub cs"
          by (simp add: sublist_Cons_right)
        then show ?thesis
        proof
          assume "prefix sub (c # cs)"
          then obtain r where r: "c # cs = sub @ r" by (auto simp: prefix_def)
          have "str_replace (a # as) new (sub @ r) = sub @ str_replace (a # as) new r"
            using dis by (rule str_replace_skip)
          then show ?thesis using Cons r by simp
        next
          assume "sublist sub cs"
          moreover have "length cs < length s" using Cons by simp
          ultimately have "sublist sub (str_replace (a # as) new cs)" using 1(1) by blast
          then have "sublist sub (c # str_replace (a # as) new cs)"
            by (simp add: sublist_Cons_right)
          then show ?thesis using Cons eq by simp
        qed
      qed
    qed
  qed
qed

lemma gamma_survives_uniter:
  "contains ''gamma'' key \<Longrightarrow> contains ''gamma'' (str_replace ''uniter.'' [] key)"
  unfolding contains_def by (rule str_replace_keeps) auto

lemma sublist_single: "sublist [c] s \<longleftrightarrow> c \<in> set s"
  by (induction s) (auto simp: sublist_Cons_right)

lemma char_survives:
  assumes "c \<in> set s" and "c \<notin> set (a # as)"
  shows "c \<in> set (str_replace (a # as) new s)"
proof -
  have "set [c] \<inter> set (a # as) = {}" using assms(2) by simp
  moreover have "sublist [c] s" using assms(1) by (simp add: sublist_single)
  ultimately have "sublist [c] (str_replace (a # as) new s)" by (rule str_replace_keeps)
  then show ?thesis by (simp add: sublist_single)
qed

lemma contains_char: "contains sub s \<Longrightarrow> c \<in> set sub \<Longrightarrow> c \<in> set s"
  by (auto simp: contains_def sublist_def)

lemma multi_pattern_truthy:
  assumes "contains ''uniter.'' key \<and> (contains ''gamma'' key \<or> contains ''beta'' key)
           \<or> contains ''beta'' key \<and> contains ''gamma'' key"
  shows "truthy (legacy_new_key key)"
proof -
  have g: "contains ''gamma'' key \<Longrightarrow> CHR ''g'' \<in> set key"
    using contains_char [of "''gamma''" key "CHR ''g''"] by simp
  have b: "contains ''beta'' key \<Longrightarrow> CHR ''b'' \<in> set key"
    using contains_char [of "''beta''" key "CHR ''b''"] by simp
  have gu: "CHR ''g'' \<in> set key \<Longrightarrow> CHR ''g'' \<in> set (str_replace ''uniter.'' [] key)"
    by (rule char_survives) simp_all
  have bu: "CHR ''b'' \<in> set key \<Longrightarrow> CHR ''b'' \<in> set (str_replace ''uniter.'' [] key)"
    by (rule char_survives) simp_all
  have gb: "CHR ''g'' \<in> set key \<Longrightarrow> CHR ''g'' \<in> set (str_replace ''beta'' ''bias'' key)"
    by (rule char_survives) simp_all
  from assms g b gu bu gb show ?thesis
    unfolding legacy_new_key_cases truthy_def
    by (auto split: option.splits)
qed

lemma contains_nonempty: "contains (x # xs) s \<Longrightarrow> s \<noteq> []"
  by (auto simp: contains_def)

lemma rename_pairs_mem:
  "key \<in> set keys \<Longrightarrow> legacy_new_key key = Some k \<Longrightarrow> k \<noteq> [] \<Longrightarrow>
   (key, k) \<in> set (rename_pairs keys)"
  by (induction keys) (auto simp: truthy_def)

lemma rename_pairs_fst:
  "map fst (rename_pairs keys) = filter (\<lambda>k. truthy (legacy_new_key k)) keys"
  by (induction keys) auto

lemma rename_pairs_snd:
  "(old_key, new_key) \<in> set (rename_pairs keys) \<Longrightarrow> legacy_new_key old_key = Some new_key"
  by (induction keys) (auto simp: truthy_def split: if_splits option.splits)

lemma update_fresh: "k \<notin> fst ` set al \<Longrightarrow> AList.update k v al = al @ [(k, v)]"
  by (induction al) auto

lemma dict_pop_present:
  "map_of d k = Some v \<Longrightarrow> dict_pop k d = Inr (v, filter (\<lambda>(k', _). k' \<noteq> k) d)"
  by (auto simp: dict_pop_def AList.delete_eq intro: filter_cong)

lemma apply_renames_fresh:
  assumes "distinct (map fst d)" and "distinct (map fst ps)"
    and "set (map fst ps) \<subseteq> set (map fst d)"
    and "distinct (map snd ps)" and "set (map snd ps) \<inter> set (map fst d) = {}"
  shows "apply_renames ps d
     = Inr (filter (\<lambda>(k, v). k \<notin> set (map fst ps)) d
            @ map (\<lambda>(old_key, new_key). (new_key, the (map_of d old_key))) ps)"
  using assms
proof (induction ps arbitrary: d)
  case Nil
  then show ?case by simp
next
  case (Cons p ps)
  obtain old_key new_key where p: "p = (old_key, new_key)" by (cases p)
  from Cons.prems p have old: "old_key \<in> set (map fst d)" by simp
  then obtain v where v: "map_of d old_key = Some v"
    by (metis map_of_eq_None_iff not_Some_eq set_map)
  define d' where "d' = filter (\<lambda>(k', _). k' \<noteq> old_key) d"
  have pop: "dict_pop old_key d = Inr (v, d')"
    unfolding d'_def using v by (rule dict_pop_present)
  have fresh: "new_key \<notin> fst ` set d'"
    using Cons.prems(5) p by (auto simp: d'_def)
  have upd: "AList.update new_key v d' = d' @ [(new_key, v)]"
    using fresh by (rule update_fresh)
  let ?d1 = "d' @ [(new_key, v)]"
  have keys1: "set (map fst ?d1) = (set (map fst d) - {old_key}) \<union> {new_key}"
    by (auto simp: d'_def)
  have new_notin_d: "new_key \<notin> set (map fst d)"
    using Cons.prems(5) p by auto
  have d1: "distinct (map fst ?d1)"
    using Cons.prems(1) fresh by (simp add: d'_def distinct_map_filter)
  have d2: "distinct (map fst ps)" using Cons.prems(2) by simp
  have o: "old_key \<notin> set (map fst ps)" using Cons.prems(2) p by simp
  have s: "set (map fst ps) \<subseteq> set (map fst d)" using Cons.prems(3) by simp
  have d3: "set (map fst ps) \<subseteq> set (map fst ?d1)"
    unfolding keys1 using o s by blast
  have d4: "distinct (map snd ps)" using Cons.prems(4) by simp
  have n: "new_key \<notin> set (map snd ps)" using Cons.prems(4) p by simp
  have i: "set (map snd ps) \<inter> set (map fst d) = {}" using Cons.prems(5) by auto
  have d5: "set (map snd ps) \<inter> set (map fst ?d1) = {}"
    unfolding keys1 using n i by blast
  have ih: "apply_renames ps ?d1
     = Inr (filter (\<lambda>(k, v). k \<notin> set (map fst ps)) ?d1
            @ map (\<lambda>(old_key, new_key). (new_key, the (map_of ?d1 old_key))) ps)"
    using d1 d2 d3 d4 d5 by (rule Cons.IH)
  have new_notin_ps: "new_key \<notin> set (map fst ps)"
    using s new_notin_d by blast
  have f: "filter (\<lambda>(k, v). k \<notin> set (map fst ps)) ?d1
      = filter (\<lambda>(k, v). k \<notin> set (map fst (p # ps))) d @ [(new_key, v)]"
    using new_notin_ps by (auto simp: d'_def p intro: filter_cong)
  have m: "map_of ?d1 k = map_of d k" if "k \<in> set (map fst ps)" for k
  proof -
    from that o have "k \<noteq> old_key" by auto
    moreover from that new_notin_ps have "k \<noteq> new_key" by auto
    moreover have "map_of d' k = map_of d k" if "k \<noteq> old_key" for k
      unfolding d'_def using that by (induction d) auto
    ultimately show ?thesis
      by (simp add: map_of_append map_add_def split: option.splits)
  qed
  have g: "map (\<lambda>(old_key, new_key). (new_key, the (map_of ?d1 old_key))) ps
      = map (\<lambda>(old_key, new_key). (new_key, the (map_of d old_key))) ps"
  proof (rule map_cong [OF refl])
    fix x assume x: "x \<in> set ps"
    obtain a b where ab: "x = (a, b)" by (cases x)
    from x ab have "a \<in> set (map fst ps)" by force
    then have "map_of ?d1 a = map_of d a" by (rule m)
    then show "(case x of (old_key, new_key) \<Rightarrow> (new_key, the (map_of ?d1 old_key)))
        = (case x of (old_key, new_key) \<Rightarrow> (new_key, the (map_of d old_key)))"
      by (simp only: ab prod.case)
  qed
  show ?case
    unfolding p apply_renames.simps pop
    by (simp only: sum.case prod.case upd ih f g)
      (simp add: p v)
qed


lemma apply_renames_total:
  assumes "distinct (map fst ps)" and "set (map fst ps) \<subseteq> set (map fst d)"
  shows "\<exists>d'. apply_renames ps d = Inr d'"
  using assms
proof (induction ps arbitrary: d)
  case Nil
  then show ?case by simp
next
  case (Cons p ps)
  obtain old_key new_key where p: "p = (old_key, new_key)" by (cases p)
  from Cons.prems p have "old_key \<in> set (map fst d)" by simp
  then obtain v where v: "map_of d old_key = Some v"
    by (metis map_of_eq_None_iff not_Some_eq set_map)
  have pop: "dict_pop old_key d = Inr (v, AList.delete old_key d)"
    by (simp add: dict_pop_def v)
  let ?d1 = "AList.update new_key v (AList.delete old_key d)"
  have o: "old_key \<notin> set (map fst ps)" using Cons.prems(1) p by simp
  have s: "set (map fst ps) \<subseteq> set (map fst d)" using Cons.prems(2) by simp
  have "set (map fst d) - {old_key} \<subseteq> set (map fst ?d1)"
    by (auto simp: AList.update_keys AList.delete_keys)
  with o s have "set (map fst ps) \<subseteq> set (map fst ?d1)" by blast
  moreover have "distinct (map fst ps)" using Cons.prems(1) by simp
  ultimately have "\<exists>d'. apply_renames ps ?d1 = Inr d'" by (rule Cons.IH [rotated])
  then show ?case
    unfolding p apply_renames.simps pop by (simp only: sum.case prod.case)
qed

lemma rename_pairs_values:
  assumes "distinct (map fst sd)"
  shows "set xs \<subseteq> set sd \<Longrightarrow>
     map (\<lambda>(old_key, new_key). (new_key, the (map_of sd old_key))) (rename_pairs (map fst xs))
     = map (\<lambda>(k, v). (the (legacy_new_key k), v))
         (filter (\<lambda>(k, v). truthy (legacy_new_key k)) xs)"
proof (induction xs)
  case Nil
  then show ?case by simp
next
  case (Cons x xs)
  obtain k v where x: "x = (k, v)" by (cases x)
  from Cons.prems x have "(k, v) \<in> set sd" by simp
  with assms have "map_of sd k = Some v" by (rule map_of_is_SomeI)
  moreover from Cons have "map (\<lambda>(old_key, new_key). (new_key, the (map_of sd old_key)))
         (rename_pairs (map fst xs))
     = map (\<lambda>(k, v). (the (legacy_new_key k), v))
         (filter (\<lambda>(k, v). truthy (legacy_new_key k)) xs)" by simp
  ultimately show ?case by (simp add: x)
qed

lemma rename_pairs_keep:
  "filter (\<lambda>(k, v). k \<notin> set (map fst (rename_pairs (map fst sd)))) sd
   = filter (\<lambda>(k, v). \<not> truthy (legacy_new_key k)) sd"
  unfolding rename_pairs_fst by (rule filter_cong) force+

lemma legacy_rename_total:
  assumes "distinct (map fst sd)"
  shows "\<exists>sd'. legacy_rename sd = Inr sd'"
  unfolding legacy_rename_def
  by (rule apply_renames_total) (simp_all add: rename_pairs_fst assms)

lemma legacy_rename_fresh:
  assumes "distinct (map fst sd)"
    and "distinct (map snd (rename_pairs (map fst sd)))"
    and "set (map snd (rename_pairs (map fst sd))) \<inter> set (map fst sd) = {}"
  shows "legacy_rename sd
     = Inr (filter (\<lambda>(k, v). \<not> truthy (legacy_new_key k)) sd
            @ map (\<lambda>(k, v). (the (legacy_new_key k), v))
                (filter (\<lambda>(k, v). truthy (legacy_new_key k)) sd))"
proof -
  have a: "distinct (map fst (rename_pairs (map fst sd)))"
    using assms(1) by (simp add: rename_pairs_fst)
  have b: "set (map fst (rename_pairs (map fst sd))) \<subseteq> set (map fst sd)"
    by (simp add: rename_pairs_fst)
  have "apply_renames (rename_pairs (map fst sd)) sd
     = Inr (filter (\<lambda>(k, v). k \<notin> set (map fst (rename_pairs (map fst sd)))) sd
            @ map (\<lambda>(old_key, new_key). (new_key, the (map_of sd old_key)))
                (rename_pairs (map fst sd)))"
    using assms(1) a b assms(2,3) by (rule apply_renames_fresh)
  then show ?thesis
    unfolding legacy_rename_def
    by (simp only: rename_pairs_keep rename_pairs_values [OF assms(1) subset_refl])
qed

lemma renamed_keys:
  "map fst (filter (\<lambda>(k, v). \<not> truthy (legacy_new_key k)) sd
            @ map (\<lambda>(k, v). (the (legacy_new_key k), v))
                (filter (\<lambda>(k, v). truthy (legacy_new_key k)) sd))
   = filter (\<lambda>k. \<not> truthy (legacy_new_key k)) (map fst sd)
     @ map snd (rename_pairs (map fst sd))"
proof -
  have a: "map fst (filter (\<lambda>(k, v). \<not> truthy (legacy_new_key k)) sd)
      = filter (\<lambda>k. \<not> truthy (legacy_new_key k)) (map fst sd)"
    by (induction sd) auto
  have b: "map fst (map (\<lambda>(k, v). (the (legacy_new_key k), v))
                (filter (\<lambda>(k, v). truthy (legacy_new_key k)) sd))
      = map snd (rename_pairs (map fst sd))"
    by (induction sd) auto
  show ?thesis by (simp only: map_append a b)
qed

lemma renamed_lookup:
  assumes d: "distinct (map fst sd)"
    and n: "distinct (map snd (rename_pairs (map fst sd)))"
    and i: "set (map snd (rename_pairs (map fst sd))) \<inter> set (map fst sd) = {}"
    and r: "r = filter (\<lambda>(k, v). \<not> truthy (legacy_new_key k)) sd
            @ map (\<lambda>(k, v). (the (legacy_new_key k), v))
                (filter (\<lambda>(k, v). truthy (legacy_new_key k)) sd)"
  shows "distinct (map fst r)"
    and "(k, v) \<in> set sd \<Longrightarrow> truthy (legacy_new_key k) \<Longrightarrow>
         map_of r (the (legacy_new_key k)) = Some v \<and> map_of r k = None"
    and "(k, v) \<in> set sd \<Longrightarrow> \<not> truthy (legacy_new_key k) \<Longrightarrow> map_of r k = Some v"
proof -
  have keys: "map fst r = filter (\<lambda>k. \<not> truthy (legacy_new_key k)) (map fst sd)
     @ map snd (rename_pairs (map fst sd))"
    unfolding r by (rule renamed_keys)
  have sub: "set (filter (\<lambda>k. \<not> truthy (legacy_new_key k)) (map fst sd)) \<subseteq> set (map fst sd)"
    by auto
  show dr: "distinct (map fst r)"
    unfolding keys using d n i sub by (simp only: distinct_append distinct_filter) blast
  {
    assume m: "(k, v) \<in> set sd" and t: "truthy (legacy_new_key k)"
    have "(the (legacy_new_key k), v) \<in> set r"
      unfolding r using m t by force
    with dr have 1: "map_of r (the (legacy_new_key k)) = Some v" by (rule map_of_is_SomeI)
    from m have ks: "k \<in> set (map fst sd)" by force
    with i have "k \<notin> set (map snd (rename_pairs (map fst sd)))" by blast
    moreover from t have "k \<notin> set (filter (\<lambda>k. \<not> truthy (legacy_new_key k)) (map fst sd))"
      by simp
    ultimately have "k \<notin> set (map fst r)" unfolding keys by simp
    then have 2: "map_of r k = None" by (simp add: map_of_eq_None_iff)
    from 1 2 show "map_of r (the (legacy_new_key k)) = Some v \<and> map_of r k = None" ..
  }
  {
    assume m: "(k, v) \<in> set sd" and t: "\<not> truthy (legacy_new_key k)"
    have "(k, v) \<in> set r" unfolding r using m t by simp
    with dr show "map_of r k = Some v" by (rule map_of_is_SomeI)
  }
qed

text \<open>
  Claim C9 (legacy renaming, last match wins). The new key of the renaming loop is
  computed from the unmodified key by one replacement only, that of the last pattern
  among \<open>gamma\<close>, \<open>beta\<close>, \<open>uniter.\<close> that the key contains; a key with more than one
  of the patterns is always renamed, and a key with both \<open>uniter.\<close> and \<open>gamma\<close> is
  recorded with the new key that has \<open>uniter.\<close> removed and still contains \<open>gamma\<close>.
  The second loop never raises on a dictionary. When the new keys are pairwise
  different and none of them is a key of the checkpoint, the dictionary after the
  second loop is the entries that are not renamed, in their order, followed by the
  renamed entries, in their order, each under its new key: every tensor is found under
  the key of its single replacement and no longer under its old key, so the tensor of
  a key with \<open>uniter.\<close> and \<open>gamma\<close> is found under the key that has \<open>uniter.\<close> removed
  and still contains \<open>gamma\<close>.
\<close>

theorem legacy_rename_last_match_wins:
  "legacy_new_key key =
     (if contains ''uniter.'' key then Some (str_replace ''uniter.'' [] key)
      else if contains ''beta'' key then Some (str_replace ''beta'' ''bias'' key)
      else if contains ''gamma'' key then Some (str_replace ''gamma'' ''weight'' key)
      else None)
   \<and> (contains ''uniter.'' key \<and> (contains ''gamma'' key \<or> contains ''beta'' key)
        \<or> contains ''beta'' key \<and> contains ''gamma'' key
      \<longrightarrow> truthy (legacy_new_key key))
   \<and> (contains ''uniter.'' key \<and> contains ''gamma'' key
      \<longrightarrow> legacy_new_key key = Some (str_replace ''uniter.'' [] key)
        \<and> contains ''gamma'' (str_replace ''uniter.'' [] key)
        \<and> (key \<in> set keys \<longrightarrow> (key, str_replace ''uniter.'' [] key) \<in> set (rename_pairs keys)))
   \<and> (\<forall>(old_key, new_key) \<in> set (rename_pairs keys). legacy_new_key old_key = Some new_key)
   \<and> map fst (rename_pairs keys) = filter (\<lambda>k. truthy (legacy_new_key k)) keys
   \<and> (distinct (map fst sd) \<longrightarrow> (\<exists>sd'. legacy_rename sd = Inr sd'))
   \<and> (distinct (map fst sd)
        \<and> distinct (map snd (rename_pairs (map fst sd)))
        \<and> set (map snd (rename_pairs (map fst sd))) \<inter> set (map fst sd) = {}
      \<longrightarrow> (\<exists>sd'. legacy_rename sd = Inr sd'
            \<and> sd' = filter (\<lambda>(k, v). \<not> truthy (legacy_new_key k)) sd
                    @ map (\<lambda>(k, v). (the (legacy_new_key k), v))
                        (filter (\<lambda>(k, v). truthy (legacy_new_key k)) sd)
            \<and> distinct (map fst sd')
            \<and> (\<forall>(k, v) \<in> set sd.
                  if truthy (legacy_new_key k)
                  then map_of sd' (the (legacy_new_key k)) = Some v \<and> map_of sd' k = None
                  else map_of sd' k = Some v)
            \<and> ((key, v) \<in> set sd \<and> contains ''uniter.'' key \<and> contains ''gamma'' key
                \<longrightarrow> map_of sd' (str_replace ''uniter.'' [] key) = Some v
                  \<and> contains ''gamma'' (str_replace ''uniter.'' [] key)
                  \<and> map_of sd' key = None)))"
proof -
  have c1: "legacy_new_key key =
     (if contains ''uniter.'' key then Some (str_replace ''uniter.'' [] key)
      else if contains ''beta'' key then Some (str_replace ''beta'' ''bias'' key)
      else if contains ''gamma'' key then Some (str_replace ''gamma'' ''weight'' key)
      else None)"
    by (rule legacy_new_key_cases)
  have c2: "contains ''uniter.'' key \<and> (contains ''gamma'' key \<or> contains ''beta'' key)
        \<or> contains ''beta'' key \<and> contains ''gamma'' key
      \<longrightarrow> truthy (legacy_new_key key)"
    using multi_pattern_truthy by blast
  have k: "legacy_new_key key = Some (str_replace ''uniter.'' [] key)"
    if "contains ''uniter.'' key \<and> contains ''gamma'' key"
    using that by (simp add: legacy_new_key_cases)
  have g: "contains ''gamma'' (str_replace ''uniter.'' [] key)"
    if "contains ''uniter.'' key \<and> contains ''gamma'' key"
    using that by (simp add: gamma_survives_uniter)
  have m: "(key, str_replace ''uniter.'' [] key) \<in> set (rename_pairs keys)"
    if h: "contains ''uniter.'' key \<and> contains ''gamma'' key" and "key \<in> set keys"
  proof -
    from g [OF h] have "str_replace ''uniter.'' [] key \<noteq> []" by (rule contains_nonempty)
    with that(2) k [OF h] show ?thesis by (simp add: rename_pairs_mem)
  qed
  have c3: "contains ''uniter.'' key \<and> contains ''gamma'' key
      \<longrightarrow> legacy_new_key key = Some (str_replace ''uniter.'' [] key)
        \<and> contains ''gamma'' (str_replace ''uniter.'' [] key)
        \<and> (key \<in> set keys \<longrightarrow> (key, str_replace ''uniter.'' [] key) \<in> set (rename_pairs keys))"
    using k g m by blast
  have c4: "\<forall>(old_key, new_key) \<in> set (rename_pairs keys). legacy_new_key old_key = Some new_key"
    using rename_pairs_snd by blast
  have c5: "map fst (rename_pairs keys) = filter (\<lambda>k. truthy (legacy_new_key k)) keys"
    by (rule rename_pairs_fst)
  have c6: "distinct (map fst sd) \<longrightarrow> (\<exists>sd'. legacy_rename sd = Inr sd')"
    using legacy_rename_total by blast
  have c7: "distinct (map fst sd)
        \<and> distinct (map snd (rename_pairs (map fst sd)))
        \<and> set (map snd (rename_pairs (map fst sd))) \<inter> set (map fst sd) = {}
      \<longrightarrow> (\<exists>sd'. legacy_rename sd = Inr sd'
            \<and> sd' = filter (\<lambda>(k, v). \<not> truthy (legacy_new_key k)) sd
                    @ map (\<lambda>(k, v). (the (legacy_new_key k), v))
                        (filter (\<lambda>(k, v). truthy (legacy_new_key k)) sd)
            \<and> distinct (map fst sd')
            \<and> (\<forall>(k, v) \<in> set sd.
                  if truthy (legacy_new_key k)
                  then map_of sd' (the (legacy_new_key k)) = Some v \<and> map_of sd' k = None
                  else map_of sd' k = Some v)
            \<and> ((key, v) \<in> set sd \<and> contains ''uniter.'' key \<and> contains ''gamma'' key
                \<longrightarrow> map_of sd' (str_replace ''uniter.'' [] key) = Some v
                  \<and> contains ''gamma'' (str_replace ''uniter.'' [] key)
                  \<and> map_of sd' key = None))"
  proof
    assume h: "distinct (map fst sd)
        \<and> distinct (map snd (rename_pairs (map fst sd)))
        \<and> set (map snd (rename_pairs (map fst sd))) \<inter> set (map fst sd) = {}"
    then have d: "distinct (map fst sd)"
      and n: "distinct (map snd (rename_pairs (map fst sd)))"
      and i: "set (map snd (rename_pairs (map fst sd))) \<inter> set (map fst sd) = {}"
      by blast+
    define r where "r = filter (\<lambda>(k, v). \<not> truthy (legacy_new_key k)) sd
                    @ map (\<lambda>(k, v). (the (legacy_new_key k), v))
                        (filter (\<lambda>(k, v). truthy (legacy_new_key k)) sd)"
    note L = renamed_lookup [OF d n i r_def]
    have 1: "legacy_rename sd = Inr r"
      unfolding r_def using d n i by (rule legacy_rename_fresh)
    have 2: "distinct (map fst r)" by (rule L(1))
    have 3: "\<forall>(k, v) \<in> set sd.
                  if truthy (legacy_new_key k)
                  then map_of r (the (legacy_new_key k)) = Some v \<and> map_of r k = None
                  else map_of r k = Some v"
      using L(2,3) by auto
    have 4: "(key, v) \<in> set sd \<and> contains ''uniter.'' key \<and> contains ''gamma'' key
                \<longrightarrow> map_of r (str_replace ''uniter.'' [] key) = Some v
                  \<and> contains ''gamma'' (str_replace ''uniter.'' [] key)
                  \<and> map_of r key = None"
    proof
      assume a: "(key, v) \<in> set sd \<and> contains ''uniter.'' key \<and> contains ''gamma'' key"
      then have b: "contains ''uniter.'' key \<and> contains ''gamma'' key" by blast
      from b have t: "truthy (legacy_new_key key)" using multi_pattern_truthy by blast
      from a have "(key, v) \<in> set sd" by blast
      then have "map_of r (the (legacy_new_key key)) = Some v \<and> map_of r key = None"
        using t by (rule L(2))
      then show "map_of r (str_replace ''uniter.'' [] key) = Some v
                  \<and> contains ''gamma'' (str_replace ''uniter.'' [] key)
                  \<and> map_of r key = None"
        using k [OF b] g [OF b] by simp
    qed
    show "\<exists>sd'. legacy_rename sd = Inr sd'
            \<and> sd' = filter (\<lambda>(k, v). \<not> truthy (legacy_new_key k)) sd
                    @ map (\<lambda>(k, v). (the (legacy_new_key k), v))
                        (filter (\<lambda>(k, v). truthy (legacy_new_key k)) sd)
            \<and> distinct (map fst sd')
            \<and> (\<forall>(k, v) \<in> set sd.
                  if truthy (legacy_new_key k)
                  then map_of sd' (the (legacy_new_key k)) = Some v \<and> map_of sd' k = None
                  else map_of sd' k = Some v)
            \<and> ((key, v) \<in> set sd \<and> contains ''uniter.'' key \<and> contains ''gamma'' key
                \<longrightarrow> map_of sd' (str_replace ''uniter.'' [] key) = Some v
                  \<and> contains ''gamma'' (str_replace ''uniter.'' [] key)
                  \<and> map_of sd' key = None)"
      apply (rule exI [of _ r])
      apply (rule conjI [OF 1])
      apply (rule conjI [OF r_def])
      apply (rule conjI [OF 2])
      apply (rule conjI [OF 3])
      apply (rule 4)
      done
  qed
  from c1 c2 c3 c4 c5 c6 c7 show ?thesis by (intro conjI)
qed

theorem legacy_rename_last_match_wins_witness:
  "contains ''uniter.'' ''uniter.encoder.LayerNorm.gamma''
   \<and> contains ''gamma'' ''uniter.encoder.LayerNorm.gamma''
   \<and> rename_pairs (map fst [(''bert.beta'', 1::nat), (''uniter.encoder.LayerNorm.gamma'', 2)])
       = [(''bert.beta'', ''bert.bias''),
          (''uniter.encoder.LayerNorm.gamma'', ''encoder.LayerNorm.gamma'')]
   \<and> legacy_new_key ''uniter.encoder.LayerNorm.gamma'' = Some ''encoder.LayerNorm.gamma''
   \<and> legacy_rename [(''bert.beta'', 1::nat), (''uniter.encoder.LayerNorm.gamma'', 2)]
       = Inr [(''bert.bias'', 1), (''encoder.LayerNorm.gamma'', 2)]
   \<and> (\<exists>sd'. legacy_rename [(''bert.beta'', 1::nat), (''uniter.encoder.LayerNorm.gamma'', 2)]
         = Inr sd'
       \<and> distinct (map fst sd')
       \<and> map_of sd' ''encoder.LayerNorm.gamma'' = Some 2
       \<and> map_of sd' ''uniter.encoder.LayerNorm.gamma'' = None
       \<and> contains ''gamma'' ''encoder.LayerNorm.gamma'')"
proof -
  let ?key = "''uniter.encoder.LayerNorm.gamma''"
  let ?sd = "[(''bert.beta'', 1::nat), (''uniter.encoder.LayerNorm.gamma'', 2)]"
  have a: "contains ''uniter.'' ?key" by code_simp
  have b: "contains ''gamma'' ?key" by code_simp
  have p: "rename_pairs (map fst ?sd)
       = [(''bert.beta'', ''bert.bias''),
          (''uniter.encoder.LayerNorm.gamma'', ''encoder.LayerNorm.gamma'')]"
    by code_simp
  have d: "str_replace ''uniter.'' [] ?key = ''encoder.LayerNorm.gamma''" by code_simp
  have e: "legacy_rename ?sd = Inr [(''bert.bias'', 1), (''encoder.LayerNorm.gamma'', 2)]"
    by code_simp
  have h1: "distinct (map fst ?sd)" by simp
  have h2: "distinct (map snd (rename_pairs (map fst ?sd)))" unfolding p by simp
  have h3: "set (map snd (rename_pairs (map fst ?sd))) \<inter> set (map fst ?sd) = {}"
    unfolding p by simp
  have m: "(?key, 2) \<in> set ?sd" by simp
  note t = legacy_rename_last_match_wins [of ?key "map fst ?sd" ?sd 2]
  have f: "legacy_new_key ?key = Some (str_replace ''uniter.'' [] ?key)"
    using t a b by blast
  from t have "distinct (map fst ?sd)
        \<and> distinct (map snd (rename_pairs (map fst ?sd)))
        \<and> set (map snd (rename_pairs (map fst ?sd))) \<inter> set (map fst ?sd) = {}
      \<longrightarrow> (\<exists>sd'. legacy_rename ?sd = Inr sd'
            \<and> sd' = filter (\<lambda>(k, v). \<not> truthy (legacy_new_key k)) ?sd
                    @ map (\<lambda>(k, v). (the (legacy_new_key k), v))
                        (filter (\<lambda>(k, v). truthy (legacy_new_key k)) ?sd)
            \<and> distinct (map fst sd')
            \<and> (\<forall>(k, v) \<in> set ?sd.
                  if truthy (legacy_new_key k)
                  then map_of sd' (the (legacy_new_key k)) = Some v \<and> map_of sd' k = None
                  else map_of sd' k = Some v)
            \<and> ((?key, 2) \<in> set ?sd \<and> contains ''uniter.'' ?key \<and> contains ''gamma'' ?key
                \<longrightarrow> map_of sd' (str_replace ''uniter.'' [] ?key) = Some 2
                  \<and> contains ''gamma'' (str_replace ''uniter.'' [] ?key)
                  \<and> map_of sd' ?key = None))"
    by (elim conjE)
  with h1 h2 h3 obtain sd' where s: "legacy_rename ?sd = Inr sd'"
    and s1: "distinct (map fst sd')"
    and s2: "(?key, 2) \<in> set ?sd \<and> contains ''uniter.'' ?key \<and> contains ''gamma'' ?key
                \<longrightarrow> map_of sd' (str_replace ''uniter.'' [] ?key) = Some 2
                  \<and> contains ''gamma'' (str_replace ''uniter.'' [] ?key)
                  \<and> map_of sd' ?key = None"
    by blast
  from s2 m a b have s3: "map_of sd' (str_replace ''uniter.'' [] ?key) = Some 2
                  \<and> contains ''gamma'' (str_replace ''uniter.'' [] ?key)
                  \<and> map_of sd' ?key = None"
    by blast
  have x: "\<exists>sd'. legacy_rename ?sd = Inr sd'
       \<and> distinct (map fst sd')
       \<and> map_of sd' ''encoder.LayerNorm.gamma'' = Some 2
       \<and> map_of sd' ?key = None
       \<and> contains ''gamma'' ''encoder.LayerNorm.gamma''"
    using s s1 s3 unfolding d by blast
  from a b p e x f [unfolded d] show ?thesis by (intro conjI)
qed

theorem legacy_rename_last_match_wins_counterexample:
  "contains ''uniter.'' ''uniter.a.gamma''
   \<and> contains ''gamma'' ''uniter.a.gamma''
   \<and> distinct (map fst [(''uniter.a.gamma'', 1::nat), (''a.gamma'', 2)])
   \<and> rename_pairs (map fst [(''uniter.a.gamma'', 1::nat), (''a.gamma'', 2)])
       = [(''uniter.a.gamma'', ''a.gamma''), (''a.gamma'', ''a.weight'')]
   \<and> legacy_rename [(''uniter.a.gamma'', 1::nat), (''a.gamma'', 2)] = Inr [(''a.weight'', 1)]
   \<and> str_replace ''gamma'' ''weight'' (str_replace ''uniter.'' [] ''uniter.a.gamma'')
       = ''a.weight''
   \<and> str_replace ''uniter.'' [] ''uniter.a.gamma'' = ''a.gamma''
   \<and> map_of [(''a.weight'', 1::nat)] ''a.gamma'' = None"
proof -
  have a: "contains ''uniter.'' ''uniter.a.gamma''" by code_simp
  have b: "contains ''gamma'' ''uniter.a.gamma''" by code_simp
  have c: "distinct (map fst [(''uniter.a.gamma'', 1::nat), (''a.gamma'', 2)])" by simp
  have d: "rename_pairs (map fst [(''uniter.a.gamma'', 1::nat), (''a.gamma'', 2)])
       = [(''uniter.a.gamma'', ''a.gamma''), (''a.gamma'', ''a.weight'')]" by code_simp
  have e: "legacy_rename [(''uniter.a.gamma'', 1::nat), (''a.gamma'', 2)]
       = Inr [(''a.weight'', 1)]" by code_simp
  have f: "str_replace ''gamma'' ''weight'' (str_replace ''uniter.'' [] ''uniter.a.gamma'')
       = ''a.weight''" by code_simp
  have g: "str_replace ''uniter.'' [] ''uniter.a.gamma'' = ''a.gamma''" by code_simp
  have h: "map_of [(''a.weight'', 1::nat)] ''a.gamma'' = None" by simp
  from a b c d e f g h show ?thesis by (intro conjI)
qed

section \<open>The joint aligner: gather\<close>

lemma err_bind_Inr [simp]: "err_bind (Inr v) f = f v"
  by (simp add: err_bind_def)

lemma err_bind_Inl [simp]: "err_bind (Inl e) f = Inl e"
  by (simp add: err_bind_def)

lemma map2_replicate_nth:
  "length (rows ! nat g) = H \<Longrightarrow>
   map2 (\<lambda>h i. rows ! nat i ! h) [0..<H] (replicate H g) = rows ! nat g"
proof -
  assume l: "length (rows ! nat g) = H"
  have "map2 (\<lambda>h i. rows ! nat i ! h) [0..<H] (replicate H g)
      = map (\<lambda>h. rows ! nat g ! h) [0..<H]"
    by (rule nth_equalityI) simp_all
  also have "\<dots> = rows ! nat g"
    using l map_nth [of "rows ! nat g"] by simp
  finally show ?thesis .
qed

lemma gather_ok_expand:
  assumes len: "length G \<le> length C"
    and rng: "\<And>b g. b < length G \<Longrightarrow> g \<in> set (G ! b) \<Longrightarrow>
               0 \<le> g \<and> g < int (length (C ! b)) \<and> length (C ! b ! nat g) = H"
  shows "gather_ok C (unsqueeze_expand H G)"
  unfolding gather_ok_def unsqueeze_expand_def
proof (intro conjI)
  show "length (map (map (replicate H)) G) \<le> length C" using len by simp
  show "list_all (\<lambda>(rows, idxs).
           list_all (\<lambda>idx.
             list_all (\<lambda>(h, i). 0 \<le> i \<and> i < int (length rows) \<and> h < length (rows ! nat i))
               (zip [0..<length idx] idx)) idxs)
         (zip C (map (map (replicate H)) G))"
    unfolding list_all_length
  proof (intro allI impI)
    fix b assume b: "b < length (zip C (map (map (replicate H)) G))"
    then have bG: "b < length G" and bC: "b < length C" by simp_all
    have z: "zip C (map (map (replicate H)) G) ! b = (C ! b, map (replicate H) (G ! b))"
      using bG bC by simp
    show "case zip C (map (map (replicate H)) G) ! b of
           (rows, idxs) \<Rightarrow> \<forall>n<length idxs. \<forall>na<length (zip [0..<length (idxs ! n)] (idxs ! n)).
             case zip [0..<length (idxs ! n)] (idxs ! n) ! na of
               (h, i) \<Rightarrow> 0 \<le> i \<and> i < int (length rows) \<and> h < length (rows ! nat i)"
      unfolding z using rng [OF bG] by (auto simp: nth_mem)
  qed
qed

lemma gather_expand:
  assumes len: "length G \<le> length C"
    and rng: "\<And>b g. b < length G \<Longrightarrow> g \<in> set (G ! b) \<Longrightarrow>
               0 \<le> g \<and> g < int (length (C ! b)) \<and> length (C ! b ! nat g) = H"
  shows "torch_gather_dim1 C (unsqueeze_expand H G)
         = Inr (map2 (\<lambda>rows gs. map (\<lambda>g. rows ! nat g) gs) C G)"
proof -
  have ok: "gather_ok C (unsqueeze_expand H G)"
    using len rng by (rule gather_ok_expand)
  have "map2 (\<lambda>rows idxs.
           map (\<lambda>idx. map2 (\<lambda>h i. rows ! nat i ! h) [0..<length idx] idx) idxs)
         C (unsqueeze_expand H G)
      = map2 (\<lambda>rows gs. map (\<lambda>g. rows ! nat g) gs) C G"
  proof (rule nth_equalityI)
    show "length (map2 (\<lambda>rows idxs.
           map (\<lambda>idx. map2 (\<lambda>h i. rows ! nat i ! h) [0..<length idx] idx) idxs)
         C (unsqueeze_expand H G)) = length (map2 (\<lambda>rows gs. map (\<lambda>g. rows ! nat g) gs) C G)"
      by (simp add: unsqueeze_expand_def)
  next
    fix b
    assume "b < length (map2 (\<lambda>rows idxs.
           map (\<lambda>idx. map2 (\<lambda>h i. rows ! nat i ! h) [0..<length idx] idx) idxs)
         C (unsqueeze_expand H G))"
    then have bG: "b < length G" and bC: "b < length C"
      by (simp_all add: unsqueeze_expand_def)
    have "map (\<lambda>idx. map2 (\<lambda>h i. C ! b ! nat i ! h) [0..<length idx] idx)
            (map (replicate H) (G ! b))
        = map (\<lambda>g. C ! b ! nat g) (G ! b)"
      using rng [OF bG] by (simp add: map2_replicate_nth)
    then show "map2 (\<lambda>rows idxs.
           map (\<lambda>idx. map2 (\<lambda>h i. rows ! nat i ! h) [0..<length idx] idx) idxs)
         C (unsqueeze_expand H G) ! b = map2 (\<lambda>rows gs. map (\<lambda>g. rows ! nat g) gs) C G ! b"
      using bG bC by (simp add: unsqueeze_expand_def)
  qed
  with ok show ?thesis by (simp add: torch_gather_dim1_def)
qed

lemma same_width_uniform:
  assumes "\<forall>s \<in> set (T @ I). \<forall>v \<in> set s. length v = H"
  shows "same_width T I"
proof -
  have a: "\<forall>v \<in> set (concat T @ concat I). length v = H" using assms by auto
  show ?thesis
  proof (cases "concat T @ concat I")
    case Nil
    then show ?thesis by (simp only: same_width_def list.case)
  next
    case (Cons v vs)
    with a have "length v = H" "\<forall>w \<in> set vs. length w = H" by simp_all
    then have "list_all (\<lambda>w. length w = length v) vs" by (simp add: list_all_iff)
    with Cons show ?thesis by (simp only: same_width_def list.case)
  qed
qed

text \<open>
  Claim C1 (gather correctness). Let the text path give the embeddings \<open>T\<close> and the
  image path the embeddings \<open>I\<close>, for the same batch and with vectors of the hidden
  size, and let every entry of the gather index of an example lie in
  \<open>[0, Lt + Li)\<close>, the lengths being those of the example's two sequences. Then the
  joint path returns, and its output has the shape of the gather index, with
  \<open>O[b][k] = concat(T[b], I[b])[G[b][k]]\<close>: the text sequence first, the image
  sequence second.
\<close>

theorem gather_correctness:
  assumes tx: "compute_txt_embeddings m ids pos tt = Inr T"
    and im: "compute_img_embeddings m f p it = Inr I"
    and batch: "length T = length I" "length G \<le> length T"
    and width: "\<forall>s \<in> set (T @ I). \<forall>v \<in> set s. length v = config_hidden_size m"
    and rng: "\<forall>b < length G. \<forall>g \<in> set (G ! b).
                0 \<le> g \<and> g < int (length (T ! b) + length (I ! b))"
  shows "\<exists>out. compute_img_txt_embeddings m ids pos f p (Some G) tt it = Inr out
           \<and> length out = length G
           \<and> (\<forall>b < length G. length (out ! b) = length (G ! b)
                \<and> (\<forall>k < length (G ! b). out ! b ! k = (T ! b @ I ! b) ! nat (G ! b ! k)))"
proof -
  let ?C = "map2 (@) T I"
  let ?out = "map2 (\<lambda>rows gs. map (\<lambda>g. rows ! nat g) gs) ?C G"
  have cat: "torch_cat_dim1 T I = Inr ?C"
    using batch(1) same_width_uniform [OF width] by (simp add: torch_cat_dim1_def)
  have lenC: "length G \<le> length ?C" using batch by simp
  have nthC: "?C ! b = T ! b @ I ! b" if "b < length G" for b
    using that batch by simp
  have rngC: "0 \<le> g \<and> g < int (length (?C ! b))
      \<and> length (?C ! b ! nat g) = config_hidden_size m"
    if b: "b < length G" and g: "g \<in> set (G ! b)" for b g
  proof -
    from rng b g have r: "0 \<le> g" "g < int (length (T ! b) + length (I ! b))" by auto
    then have n: "nat g < length (T ! b @ I ! b)" by simp
    have "T ! b \<in> set (T @ I)" "I ! b \<in> set (T @ I)" using b batch by simp_all
    then have "\<forall>v \<in> set (T ! b @ I ! b). length v = config_hidden_size m"
      using width by auto
    then have "length ((T ! b @ I ! b) ! nat g) = config_hidden_size m"
      using n nth_mem by blast
    with r show ?thesis by (simp add: nthC [OF b])
  qed
  have g: "torch_gather_dim1 ?C (unsqueeze_expand (config_hidden_size m) G) = Inr ?out"
    using lenC rngC by (rule gather_expand)
  have run: "compute_img_txt_embeddings m ids pos f p (Some G) tt it = Inr ?out"
    by (simp add: compute_img_txt_embeddings_def tx im cat g)
  have lenO: "length ?out = length G" using batch by simp
  have nthO: "?out ! b = map (\<lambda>g. (T ! b @ I ! b) ! nat g) (G ! b)" if "b < length G" for b
    using that batch by simp
  show ?thesis
  proof (intro exI conjI allI impI)
    show "compute_img_txt_embeddings m ids pos f p (Some G) tt it = Inr ?out" by (rule run)
    show "length ?out = length G" by (rule lenO)
  next
    fix b assume "b < length G"
    then show "length (?out ! b) = length (G ! b)" by (simp add: nthO)
  next
    fix b k assume "b < length G" and "k < length (G ! b)"
    then show "?out ! b ! k = (T ! b @ I ! b) ! nat (G ! b ! k)" by (simp add: nthO)
  qed
qed


theorem gather_correctness_witness:
  "compute_txt_embeddings example_model [[1, 2, 0]] None None
     = Inr [[[111, 112], [123, 124], [130, 130]]]
   \<and> compute_img_embeddings example_model (Some [[[1, 1, 1], [2, 2, 2]]])
       (Some [[[0, 0, 1, 1], [0, 0, 1, 1]]]) None = Inr [[[201, 201], [202, 202]]]
   \<and> (\<exists>out. compute_img_txt_embeddings example_model [[1, 2, 0]] None
          (Some [[[1, 1, 1], [2, 2, 2]]]) (Some [[[0, 0, 1, 1], [0, 0, 1, 1]]])
          (Some [[0, 1, 3, 4]]) None None = Inr out
        \<and> length out = 1 \<and> length (out ! 0) = 4
        \<and> out ! 0 ! 1 = [123, 124] \<and> out ! 0 ! 2 = [201, 201])"
proof -
  let ?T = "[[[111, 112], [123, 124], [130, 130]]] :: real tensor3"
  let ?I = "[[[201, 201], [202, 202]]] :: real tensor3"
  let ?G = "[[0, 1, 3, 4]] :: int list list"
  have t: "compute_txt_embeddings example_model [[1, 2, 0]] None None = Inr ?T"
    by code_simp
  have i: "compute_img_embeddings example_model (Some [[[1, 1, 1], [2, 2, 2]]])
       (Some [[[0, 0, 1, 1], [0, 0, 1, 1]]]) None = Inr ?I"
    by code_simp
  have b1: "length ?T = length ?I" by simp
  have b2: "length ?G \<le> length ?T" by simp
  have w: "\<forall>s \<in> set (?T @ ?I). \<forall>v \<in> set s. length v = config_hidden_size example_model"
    by (simp add: example_model_def)
  have r: "\<forall>b < length ?G. \<forall>g \<in> set (?G ! b).
      0 \<le> g \<and> g < int (length (?T ! b) + length (?I ! b))"
    by simp
  from gather_correctness [OF t i b1 b2 w r] obtain out where
    o: "compute_img_txt_embeddings example_model [[1, 2, 0]] None
          (Some [[[1, 1, 1], [2, 2, 2]]]) (Some [[[0, 0, 1, 1], [0, 0, 1, 1]]])
          (Some ?G) None None = Inr out"
    and l: "length out = length ?G"
    and e: "\<forall>b < length ?G. length (out ! b) = length (?G ! b)
          \<and> (\<forall>k < length (?G ! b). out ! b ! k = (?T ! b @ ?I ! b) ! nat (?G ! b ! k))"
    by blast
  from e have e0: "length (out ! 0) = 4"
    and ek: "\<forall>k < 4. out ! 0 ! k = (?T ! 0 @ ?I ! 0) ! nat (?G ! 0 ! k)"
    by simp_all
  from ek have "out ! 0 ! 1 = (?T ! 0 @ ?I ! 0) ! nat (?G ! 0 ! 1)"
    and "out ! 0 ! 2 = (?T ! 0 @ ?I ! 0) ! nat (?G ! 0 ! 2)"
    by simp_all
  then have "out ! 0 ! 1 = [123, 124]" and "out ! 0 ! 2 = [201, 201]"
    by simp_all
  with t i o l e0 show ?thesis by auto
qed

section \<open>Operating modes and the default type of the image regions\<close>

text \<open>
  Claim C6 (mode equivalence). With the image features absent, the embedding layer of
  \<open>forward\<close> is the text path on the same text input, whatever the gather index and
  the other image arguments are, and \<open>forward\<close> as a whole is the encoder and
  pooler on that output. With the text input absent it is the image path in the same
  way.
\<close>

theorem mode_equivalence:
  "embedding_layer m (Some ids) pos None ipf gi tt it = compute_txt_embeddings m ids pos tt
   \<and> BertU_forward m (Some ids) pos None ipf am gi oa tt it
       = err_bind (compute_txt_embeddings m ids pos tt)
           (encode_and_pool m (extended_attention_mask am) oa)
   \<and> embedding_layer m None pos imf ipf gi tt it = compute_img_embeddings m imf ipf it
   \<and> BertU_forward m None pos imf ipf am gi oa tt it
       = err_bind (compute_img_embeddings m imf ipf it)
           (encode_and_pool m (extended_attention_mask am) oa)"
  by (simp add: embedding_layer_def BertU_forward_def)

theorem mode_equivalence_witness:
  "embedding_layer example_model (Some [[1, 2, 0]]) None None None (Some [[0, 1]]) None None
     = Inr [[[111, 112], [123, 124], [130, 130]]]
   \<and> embedding_layer example_model None None (Some [[[1, 1, 1], [2, 2, 2]]])
       (Some [[[0, 0, 1, 1], [0, 0, 1, 1]]]) None None None = Inr [[[201, 201], [202, 202]]]"
proof -
  have t: "compute_txt_embeddings example_model [[1, 2, 0]] None None
      = Inr [[[111, 112], [123, 124], [130, 130]]]"
    by code_simp
  have i: "compute_img_embeddings example_model (Some [[[1, 1, 1], [2, 2, 2]]])
       (Some [[[0, 0, 1, 1], [0, 0, 1, 1]]]) None = Inr [[[201, 201], [202, 202]]]"
    by code_simp
  have a: "embedding_layer example_model (Some [[1, 2, 0]]) None None None (Some [[0, 1]])
       None None = compute_txt_embeddings example_model [[1, 2, 0]] None None"
    by (rule mode_equivalence [THEN conjunct1])
  have b: "embedding_layer example_model None None (Some [[[1, 1, 1], [2, 2, 2]]])
       (Some [[[0, 0, 1, 1], [0, 0, 1, 1]]]) None None None
     = compute_img_embeddings example_model (Some [[[1, 1, 1], [2, 2, 2]]])
       (Some [[[0, 0, 1, 1], [0, 0, 1, 1]]]) None"
    by (rule mode_equivalence [THEN conjunct2, THEN conjunct2, THEN conjunct1])
  from a b t i show ?thesis by simp
qed

lemma embedding_ones:
  "embedding table (map (map (\<lambda>_. 1)) f) =
     (if 2 \<le> length table \<or> concat f = [] then Inr (map (map (\<lambda>_. table ! 1)) f)
      else Inl IndexError)"
proof -
  have "list_all (list_all (\<lambda>i. 0 \<le> i \<and> i < int (length table))) (map (map (\<lambda>_. 1)) f)
      \<longleftrightarrow> (2 \<le> length table \<or> concat f = [])"
    by (auto simp: list_all_iff)
  then show ?thesis
    by (simp add: embedding_def comp_def)
qed

text \<open>
  Claim C10 (default modality marker of the image regions). When \<open>img_type_ids\<close> is
  absent, the type ids are ones, one per region; the embedding of the type is looked
  up in the table \<open>token_type_embeddings\<close> of the text embeddings; so the image
  embedding module receives, for every region, row 1 of that table. This needs a table
  of at least two rows: with fewer rows and at least one region the lookup raises.
\<close>

theorem default_image_type:
  "\<not> list_ex (list_ex (\<lambda>v. v = [])) f \<longrightarrow>
     default_img_type_ids (Some f) = Inr (map (map (\<lambda>_. 1)) f)
     \<and> compute_img_embeddings m (Some f) (Some p) None =
         (if 2 \<le> length (token_type_embeddings (embeddings m)) \<or> concat f = []
          then UniterImageEmbeddings_forward (img_embeddings m) f p
                 (map (map (\<lambda>_. token_type_embeddings (embeddings m) ! 1)) f)
          else Inl IndexError)"
  by (simp add: default_img_type_ids_def compute_img_embeddings_def embedding_ones)

theorem default_image_type_witness:
  "\<not> list_ex (list_ex (\<lambda>v. v = [])) [[[1, 1, 1], [2, 2, 2 :: real]]]
   \<and> default_img_type_ids (Some [[[1, 1, 1], [2, 2, 2]]]) = Inr [[1, 1]]
   \<and> compute_img_embeddings example_model (Some [[[1, 1, 1], [2, 2, 2]]])
       (Some [[[0, 0, 1, 1], [0, 0, 1, 1]]]) None
     = UniterImageEmbeddings_forward example_image_embeddings [[[1, 1, 1], [2, 2, 2]]]
         [[[0, 0, 1, 1], [0, 0, 1, 1]]] [[[200, 200], [200, 200]]]
   \<and> compute_img_embeddings
       (example_model\<lparr>embeddings := example_text_embeddings\<lparr>token_type_embeddings := [[100, 100]]\<rparr>\<rparr>)
       (Some [[[1, 1, 1], [2, 2, 2]]]) (Some [[[0, 0, 1, 1], [0, 0, 1, 1]]]) None
     = Inl IndexError"
proof -
  let ?f = "[[[1, 1, 1], [2, 2, 2]]] :: real tensor3"
  let ?p = "[[[0, 0, 1, 1], [0, 0, 1, 1]]] :: real tensor3"
  let ?m1 = "example_model\<lparr>embeddings :=
      example_text_embeddings\<lparr>token_type_embeddings := [[100, 100]]\<rparr>\<rparr>"
  have h: "\<not> list_ex (list_ex (\<lambda>v. v = [])) ?f" by simp
  have a: "default_img_type_ids (Some ?f) = Inr [[1, 1]]"
    using default_image_type [of ?f example_model ?p] h by simp
  have b: "compute_img_embeddings example_model (Some ?f) (Some ?p) None
     = UniterImageEmbeddings_forward example_image_embeddings ?f ?p [[[200, 200], [200, 200]]]"
    using default_image_type [of ?f example_model ?p] h
    by (simp add: example_model_def example_text_embeddings_def)
  have c: "compute_img_embeddings ?m1 (Some ?f) (Some ?p) None = Inl IndexError"
    using default_image_type [of ?f ?m1 ?p] h
    by (simp add: example_model_def example_text_embeddings_def)
  from h a b c show ?thesis by blast
qed

section \<open>The walk over the target tree: accounting of the keys\<close>

lemma err_bind_eq_Inr:
  "err_bind x f = Inr y \<longleftrightarrow> (\<exists>v. x = Inr v \<and> f v = Inr y)"
  by (cases x) simp_all

lemma source_keys_map_of: "k \<in> source_keys st \<longleftrightarrow> map_of (state_dict st) k \<noteq> None"
  by (simp add: source_keys_def map_of_eq_None_iff)

lemma source_keys_update [simp]:
  "source_keys (st\<lparr>missing_keys := a\<rparr>) = source_keys st"
  "source_keys (st\<lparr>unexpected_keys := b\<rparr>) = source_keys st"
  "source_keys (st\<lparr>error_msgs := c\<rparr>) = source_keys st"
  "source_keys (st\<lparr>copied := d\<rparr>) = source_keys st"
  by (simp_all add: source_keys_def)

lemma load_param_accounts:
  assumes "load_param p (name, s) st = Inr st'"
  shows "state_dict st' = state_dict st \<and> unexpected_keys st' = unexpected_keys st
    \<and> set (missing_keys st') = set (missing_keys st)
        \<union> {k \<in> set (case s of None \<Rightarrow> [] | Some x \<Rightarrow> [p @ name]). k \<notin> source_keys st}
    \<and> found_keys st' = found_keys st
        \<union> {k \<in> set (case s of None \<Rightarrow> [] | Some x \<Rightarrow> [p @ name]). k \<in> source_keys st}"
proof (cases s)
  case None
  with assms show ?thesis by simp
next
  case (Some ps)
  show ?thesis
  proof (cases "map_of (state_dict st) (p @ name)")
    case None
    then have "p @ name \<notin> source_keys st"
      by (simp add: source_keys_map_of)
    with assms Some None show ?thesis
      by (auto simp: found_keys_def)
  next
    case (Some t)
    then have "p @ name \<in> source_keys st"
      by (simp add: source_keys_map_of)
    with assms \<open>s = Some ps\<close> Some show ?thesis
      by (auto simp: found_keys_def err_bind_eq_Inr Let_def split: if_splits)
  qed
qed

lemma accounts_refl: "accounts p [] st st"
  by (simp add: accounts_def)

lemma accounts_trans:
  assumes "accounts p tk1 st st1" and "accounts p tk2 st1 st2"
  shows "accounts p (tk1 @ tk2) st st2"
proof -
  have "source_keys st1 = source_keys st"
    using assms(1) by (simp add: accounts_def source_keys_def)
  with assms show ?thesis
    unfolding accounts_def by (simp only: set_append) blast
qed

lemma accounts_prefix:
  assumes "accounts (p @ q) tk st st'"
  shows "accounts p tk st st'"
proof -
  have "startswith k (p @ q) \<Longrightarrow> startswith k p" for k
    by (auto simp: startswith_def prefix_def)
  with assms show ?thesis
    unfolding accounts_def by blast
qed

lemma load_param_accounts':
  assumes "load_param p (name, s) st = Inr st'"
  shows "accounts p (case s of None \<Rightarrow> [] | Some x \<Rightarrow> [p @ name]) st st'"
  using load_param_accounts [OF assms] unfolding accounts_def by auto

lemma load_params_accounts:
  "load_params p ps st = Inr st' \<Longrightarrow>
   accounts p (map (\<lambda>name. p @ name) [name. (name, Some s) \<leftarrow> ps]) st st'"
proof (induction ps arbitrary: st)
  case Nil
  then show ?case by (simp add: accounts_refl)
next
  case (Cons a ps)
  obtain name s where a: "a = (name, s)" by (cases a)
  from Cons.prems obtain st1 where 1: "load_param p (name, s) st = Inr st1"
    and 2: "load_params p ps st1 = Inr st'"
    by (auto simp: a err_bind_eq_Inr)
  have "accounts p ((case s of None \<Rightarrow> [] | Some x \<Rightarrow> [p @ name])
      @ map (\<lambda>name. p @ name) [name. (name, Some s) \<leftarrow> ps]) st st'"
    using load_param_accounts' [OF 1] Cons.IH [OF 2] by (rule accounts_trans)
  then show ?case by (cases s) (simp_all add: a)
qed

lemma torch_loader_accounts:
  assumes "torch_load_from_state_dict m p lm st = Inr st'"
  shows "accounts p (map (\<lambda>name. p @ name) (local_state m)) st st'"
proof -
  from assms obtain st1 where 1: "load_params p (parameters m) st = Inr st1"
    and 2: "st' = st1\<lparr>unexpected_keys := unexpected_keys st1
                  @ filter (is_unexpected m p) (map fst (state_dict st1))\<rparr>"
    by (auto simp: torch_load_from_state_dict_def err_bind_eq_Inr)
  have a: "accounts p (map (\<lambda>name. p @ name) (local_state m)) st st1"
    using load_params_accounts [OF 1] by (simp add: local_state_def)
  have "set (filter (is_unexpected m p) (map fst (state_dict st1)))
      \<subseteq> {k \<in> source_keys st. startswith k p}"
    using a by (auto simp: accounts_def source_keys_def is_unexpected_def)
  with a show ?thesis
    unfolding 2 accounts_def found_keys_def by auto
qed


lemma walk_accounts:
  shows "L = torch_load_from_state_dict \<Longrightarrow> load L md m p st = Inr st' \<Longrightarrow>
      accounts p (module_keys p m) st st'"
    and "L = torch_load_from_state_dict \<Longrightarrow> load_children L md cs p st = Inr st' \<Longrightarrow>
      accounts p (children_keys p cs) st st'"
proof (induction L md m p st and L md cs p st arbitrary: st' and st'
    rule: load_load_children.induct)
  case (1 L md ps cs pfx st)
  from "1.prems" obtain st1 where
    a: "L (Module ps cs) pfx (local_metadata md pfx) st = Inr st1"
    and b: "load_children L md cs pfx st1 = Inr st'"
    by (auto simp: err_bind_eq_Inr)
  have "accounts pfx (map (\<lambda>name. pfx @ name) (local_state (Module ps cs))) st st1"
    using a "1.prems"(1) torch_loader_accounts by blast
  moreover have "accounts pfx (children_keys pfx cs) st1 st'"
    using "1.IH" "1.prems"(1) b by blast
  ultimately show ?case
    unfolding module_keys.simps by (rule accounts_trans)
next
  case (2 L md pfx st)
  then show ?case by (simp add: accounts_refl)
next
  case (3 L md name cs pfx st)
  then show ?case by simp
next
  case (4 L md name child cs pfx st)
  from "4.prems" obtain st1 where
    a: "load L md child (pfx @ name @ ''.'') st = Inr st1"
    and b: "load_children L md cs pfx st1 = Inr st'"
    by (auto simp: err_bind_eq_Inr)
  have "accounts (pfx @ name @ ''.'') (module_keys (pfx @ name @ ''.'') child) st st1"
    using "4.IH"(1) "4.prems"(1) a by blast
  then have "accounts pfx (module_keys (pfx @ name @ ''.'') child) st st1"
    by (rule accounts_prefix)
  moreover have "accounts pfx (children_keys pfx cs) st1 st'"
    using "4.IH"(2) "4.prems"(1) b by blast
  ultimately show ?case
    unfolding children_keys.simps by (rule accounts_trans)
qed

lemma walk_initial:
  assumes "walk torch_load_from_state_dict model sd md = Inr st"
  shows "accounts (start_prefix model sd) (module_keys (start_prefix model sd) model)
           (initial_state sd) st"
  using assms walk_accounts(1) unfolding walk_def by blast

lemma load_phase_cases:
  "load_phase L model sd md =
     (case walk L model sd md of
        Inl e \<Rightarrow> Raised e
      | Inr st \<Rightarrow> if error_msgs st = [] then Loaded st else Failed (error_msgs st))"
  by (simp add: load_phase_def split: sum.splits)

text \<open>
  Claim C3 (outcome of a load). Whatever the library's loader of a module does, the
  load is \<open>Loaded\<close> exactly when the walk ends with an empty list of error messages,
  whatever the lists of missing and unexpected keys are then, and it is \<open>Failed\<close>
  exactly when the walk ends with error messages, which are the ones raised. The same
  holds for \<open>from_pretrained\<close> as a whole, on the renamed and reconciled dictionary.
\<close>

theorem load_outcome:
  "(load_phase L model sd md = Loaded st
      \<longleftrightarrow> walk L model sd md = Inr st \<and> error_msgs st = [])
   \<and> (load_phase L model sd md = Failed msgs
      \<longleftrightarrow> (\<exists>st. walk L model sd md = Inr st \<and> error_msgs st = msgs \<and> msgs \<noteq> []))
   \<and> (from_pretrained L model sd md = Loaded st
      \<longleftrightarrow> (\<exists>sd'. err_bind (legacy_rename sd) reconcile_shapes = Inr sd'
            \<and> walk L model sd' md = Inr st \<and> error_msgs st = []))
   \<and> (from_pretrained L model sd md = Failed msgs
      \<longleftrightarrow> (\<exists>sd' st. err_bind (legacy_rename sd) reconcile_shapes = Inr sd'
            \<and> walk L model sd' md = Inr st \<and> error_msgs st = msgs \<and> msgs \<noteq> []))"
proof (intro conjI)
  show a: "\<And>sd. load_phase L model sd md = Loaded st
      \<longleftrightarrow> walk L model sd md = Inr st \<and> error_msgs st = []"
    by (auto simp: load_phase_cases split: sum.splits)
  show b: "\<And>sd. load_phase L model sd md = Failed msgs
      \<longleftrightarrow> (\<exists>st. walk L model sd md = Inr st \<and> error_msgs st = msgs \<and> msgs \<noteq> [])"
    by (auto simp: load_phase_cases split: sum.splits)
  show "from_pretrained L model sd md = Loaded st
      \<longleftrightarrow> (\<exists>sd'. err_bind (legacy_rename sd) reconcile_shapes = Inr sd'
            \<and> walk L model sd' md = Inr st \<and> error_msgs st = [])"
    by (cases "err_bind (legacy_rename sd) reconcile_shapes") (simp_all add: from_pretrained_def a)
  show "from_pretrained L model sd md = Failed msgs
      \<longleftrightarrow> (\<exists>sd' st. err_bind (legacy_rename sd) reconcile_shapes = Inr sd'
            \<and> walk L model sd' md = Inr st \<and> error_msgs st = msgs \<and> msgs \<noteq> [])"
    by (cases "err_bind (legacy_rename sd) reconcile_shapes") (simp_all add: from_pretrained_def b)
qed

theorem load_outcome_witness:
  "walk torch_load_from_state_dict example_target example_checkpoint None = Inr example_loaded
   \<and> missing_keys example_loaded \<noteq> [] \<and> unexpected_keys example_loaded \<noteq> []
   \<and> error_msgs example_loaded = []
   \<and> load_phase torch_load_from_state_dict example_target example_checkpoint None
       = Loaded example_loaded
   \<and> walk torch_load_from_state_dict example_target example_mismatch None = Inr example_refused
   \<and> load_phase torch_load_from_state_dict example_target example_mismatch None
       = Failed [SizeMismatch ''pooler.dense.bias'' [3] [2]]"
proof -
  have w: "walk torch_load_from_state_dict example_target example_checkpoint None
      = Inr example_loaded"
    by code_simp
  have m: "missing_keys example_loaded \<noteq> []" "unexpected_keys example_loaded \<noteq> []"
    and e: "error_msgs example_loaded = []"
    by (simp_all add: example_loaded_def)
  have l: "load_phase torch_load_from_state_dict example_target example_checkpoint None
       = Loaded example_loaded"
    using load_outcome [of torch_load_from_state_dict example_target example_checkpoint None
        example_loaded] w e by blast
  have w2: "walk torch_load_from_state_dict example_target example_mismatch None
      = Inr example_refused"
    by code_simp
  have e2: "error_msgs example_refused = [SizeMismatch ''pooler.dense.bias'' [3] [2]]"
    by (simp add: example_refused_def)
  have f: "load_phase torch_load_from_state_dict example_target example_mismatch None
       = Failed [SizeMismatch ''pooler.dense.bias'' [3] [2]]"
    using load_outcome [of torch_load_from_state_dict example_target example_mismatch None
        _ "[SizeMismatch ''pooler.dense.bias'' [3] [2]]"] w2 e2 by blast
  from w m e l w2 f show ?thesis by blast
qed

lemma initial_state_simps [simp]:
  "state_dict (initial_state sd) = sd" "missing_keys (initial_state sd) = []"
  "unexpected_keys (initial_state sd) = []" "found_keys (initial_state sd) = {}"
  "source_keys (initial_state sd) = set (map fst sd)"
  by (simp_all add: initial_state_def found_keys_def source_keys_def)

lemma accounts_initial:
  assumes "accounts p tk (initial_state sd) st"
  shows "set (missing_keys st) \<union> found_keys st = set tk"
    and "found_keys st = set tk \<inter> set (map fst sd)"
    and "set (missing_keys st) = set tk - set (map fst sd)"
    and "error_msgs st = [] \<Longrightarrow> set (missing_keys st) \<union> fst ` set (copied st) = set tk"
    and "error_msgs st = [] \<Longrightarrow> fst ` set (copied st) = set tk \<inter> set (map fst sd)"
    and "set (unexpected_keys st) \<union> found_keys st \<subseteq> set (map fst sd)"
    and "\<forall>k \<in> set (unexpected_keys st). startswith k p"
proof -
  from assms have m: "set (missing_keys st) = set tk - set (map fst sd)"
    and f: "found_keys st = set tk \<inter> set (map fst sd)"
    and u: "set (unexpected_keys st) \<subseteq> {k \<in> set (map fst sd). startswith k p}"
    by (simp_all add: accounts_def)
  show "set (missing_keys st) = set tk - set (map fst sd)" by (rule m)
  show "found_keys st = set tk \<inter> set (map fst sd)" by (rule f)
  show mf: "set (missing_keys st) \<union> found_keys st = set tk" using m f by blast
  show "set (unexpected_keys st) \<union> found_keys st \<subseteq> set (map fst sd)" using u f by blast
  show "\<forall>k \<in> set (unexpected_keys st). startswith k p" using u by blast
  {
    assume "error_msgs st = []"
    then have c: "found_keys st = fst ` set (copied st)" by (simp add: found_keys_def)
    show "set (missing_keys st) \<union> fst ` set (copied st) = set tk" using mf c by simp
    show "fst ` set (copied st) = set tk \<inter> set (map fst sd)" using f c by simp
  }
qed

text \<open>
  Claim C4 (coverage accounting), as the code has it. The two sets that
  \<open>ModelX.load\<close> prints and the keys common to the model and the normalised
  checkpoint make up the keys of the model and the keys of the checkpoint. At the end
  of a walk (with the library's loader of a module) every target key, addressed below
  the start prefix, is either missing or was found in the dictionary, the found keys
  are the target keys present in the dictionary, and without error messages they are
  the keys that were copied. On the side of the source only an inclusion holds: the
  unexpected and the found keys are keys of the dictionary, and every unexpected key
  starts with the start prefix. For \<open>ModelX.load\<close> the missing keys of the load are
  the printed ones.
\<close>

theorem coverage_accounting:
  "in_model_not_in_loaded model ckpt \<union> (model_keys model \<inter> load_keys ckpt) = model_keys model
   \<and> in_loaded_not_in_model model ckpt \<union> (load_keys ckpt \<inter> model_keys model) = load_keys ckpt
   \<and> (walk torch_load_from_state_dict model sd md = Inr st \<longrightarrow>
        set (missing_keys st) \<union> found_keys st = set (module_keys (start_prefix model sd) model)
        \<and> found_keys st = set (module_keys (start_prefix model sd) model) \<inter> set (map fst sd)
        \<and> (error_msgs st = [] \<longrightarrow>
             set (missing_keys st) \<union> fst ` set (copied st)
               = set (module_keys (start_prefix model sd) model))
        \<and> set (unexpected_keys st) \<union> found_keys st \<subseteq> set (map fst sd)
        \<and> (\<forall>k \<in> set (unexpected_keys st). startswith k (start_prefix model sd)))
   \<and> (ModelX_load torch_load_from_state_dict model ckpt = Loaded st' \<longrightarrow>
        set (missing_keys st') = in_model_not_in_loaded model ckpt
        \<and> fst ` set (copied st') = model_keys model \<inter> load_keys ckpt
        \<and> set (unexpected_keys st') \<subseteq> load_keys ckpt)"
proof (intro conjI impI)
  show "in_model_not_in_loaded model ckpt \<union> (model_keys model \<inter> load_keys ckpt)
      = model_keys model"
    unfolding in_model_not_in_loaded_def by blast
  show "in_loaded_not_in_model model ckpt \<union> (load_keys ckpt \<inter> model_keys model)
      = load_keys ckpt"
    unfolding in_loaded_not_in_model_def by blast
next
  assume "walk torch_load_from_state_dict model sd md = Inr st"
  then have a: "accounts (start_prefix model sd) (module_keys (start_prefix model sd) model)
           (initial_state sd) st"
    by (rule walk_initial)
  show "set (missing_keys st) \<union> found_keys st = set (module_keys (start_prefix model sd) model)"
    using a by (rule accounts_initial)
  show "found_keys st = set (module_keys (start_prefix model sd) model) \<inter> set (map fst sd)"
    using a by (rule accounts_initial)
  show "set (unexpected_keys st) \<union> found_keys st \<subseteq> set (map fst sd)"
    using a by (rule accounts_initial)
  show "\<forall>k \<in> set (unexpected_keys st). startswith k (start_prefix model sd)"
    using a by (rule accounts_initial)
  assume "error_msgs st = []"
  with a show "set (missing_keys st) \<union> fst ` set (copied st)
               = set (module_keys (start_prefix model sd) model)"
    by (rule accounts_initial)
next
  assume "ModelX_load torch_load_from_state_dict model ckpt = Loaded st'"
  then have l: "load torch_load_from_state_dict None model []
        (initial_state (new_state_dict ckpt)) = Inr st'"
    and e: "error_msgs st' = []"
    by (auto simp: ModelX_load_def split: sum.splits if_splits)
  have a: "accounts [] (module_keys [] model) (initial_state (new_state_dict ckpt)) st'"
    using l walk_accounts(1) by blast
  show "set (missing_keys st') = in_model_not_in_loaded model ckpt"
    using accounts_initial(3) [OF a]
    by (simp add: in_model_not_in_loaded_def model_keys_def load_keys_def)
  show "fst ` set (copied st') = model_keys model \<inter> load_keys ckpt"
    using accounts_initial(5) [OF a e] by (simp add: model_keys_def load_keys_def)
  show "set (unexpected_keys st') \<subseteq> load_keys ckpt"
    using accounts_initial(6) [OF a] by (simp add: load_keys_def)
qed

theorem coverage_accounting_witness:
  "walk torch_load_from_state_dict example_target example_checkpoint None = Inr example_loaded
   \<and> error_msgs example_loaded = []
   \<and> set (missing_keys example_loaded) \<union> fst ` set (copied example_loaded)
       = set (module_keys (start_prefix example_target example_checkpoint) example_target)
   \<and> set (unexpected_keys example_loaded) \<union> found_keys example_loaded
       \<subseteq> set (map fst example_checkpoint)"
proof -
  have w: "walk torch_load_from_state_dict example_target example_checkpoint None
      = Inr example_loaded"
    by code_simp
  have e: "error_msgs example_loaded = []"
    by (simp add: example_loaded_def)
  show ?thesis
    using coverage_accounting [of example_target _ example_checkpoint None example_loaded] w e
    by blast
qed

theorem coverage_accounting_counterexample:
  "load_phase torch_load_from_state_dict example_target example_checkpoint None
     = Loaded example_loaded
   \<and> ''cls.predictions.bias'' \<in> set (map fst example_checkpoint)
   \<and> ''cls.predictions.bias'' \<notin> set (unexpected_keys example_loaded)
   \<and> ''cls.predictions.bias'' \<notin> fst ` set (copied example_loaded)
   \<and> set (unexpected_keys example_loaded) \<union> fst ` set (copied example_loaded)
       \<noteq> set (map fst example_checkpoint)"
proof -
  have l: "load_phase torch_load_from_state_dict example_target example_checkpoint None
     = Loaded example_loaded"
    by code_simp
  have a: "''cls.predictions.bias'' \<in> set (map fst example_checkpoint)"
    by (simp add: example_checkpoint_def)
  have b: "''cls.predictions.bias'' \<notin> set (unexpected_keys example_loaded)"
    by (simp add: example_loaded_def)
  have c: "''cls.predictions.bias'' \<notin> fst ` set (copied example_loaded)"
    by (simp add: example_loaded_def)
  from l a b c show ?thesis by blast
qed

section \<open>Reconciliation of shapes\<close>

lemma collect_errors_Inr: "collect_errors (map Inr xs) = Inr xs"
  by (induction xs) simp_all

lemma slice_rows:
  assumes "\<forall>r \<in> set rows. \<exists>cols. r = Nested cols"
  shows "map (slice_row n) rows = map Inr (map (\<lambda>r. Nested (take n (elems r))) rows)"
  using assms
proof (induction rows)
  case Nil
  then show ?case by simp
next
  case (Cons r rows)
  then obtain cols where "r = Nested cols" by auto
  with Cons show ?case by simp
qed

lemma slice_cols_matrix:
  assumes "\<forall>r \<in> set rows. \<exists>cols. r = Nested cols"
  shows "slice_cols n (Nested rows) = Inr (Nested (map (\<lambda>r. Nested (take n (elems r))) rows))"
proof -
  have "collect_errors (map (slice_row n) rows)
      = Inr (map (\<lambda>r. Nested (take n (elems r))) rows)"
    by (simp only: slice_rows [OF assms] collect_errors_Inr)
  then show ?thesis by simp
qed

lemma reconcile_shapes_keys:
  assumes "reconcile_shapes sd = Inr sd'"
  shows "map fst sd' = map fst sd"
    and "k \<noteq> ''img_embeddings.pos_linear.weight'' \<Longrightarrow> map_of sd' k = map_of sd k"
proof -
  define K where "K = ''img_embeddings.pos_linear.weight''"
  have r: "reconcile_shapes sd =
     (case map_of sd K of None \<Rightarrow> Inr sd
      | Some t \<Rightarrow> err_bind (slice_cols 4 t) (\<lambda>t'. Inr (AList.update K t' sd)))"
    by (simp only: reconcile_shapes_def K_def)
  have "map fst sd' = map fst sd \<and> (k \<noteq> K \<longrightarrow> map_of sd' k = map_of sd k)"
  proof (cases "map_of sd K")
    case None
    with assms r show ?thesis by simp
  next
    case (Some t)
    then have "K \<in> set (map fst sd)"
      by (metis map_of_eq_None_iff option.distinct(1) set_map)
    moreover from assms r Some obtain t' where "sd' = AList.update K t' sd"
      by (auto simp: err_bind_eq_Inr)
    ultimately show ?thesis
      by (simp add: update_keys update_conv')
  qed
  then show "map fst sd' = map fst sd"
    and "k \<noteq> ''img_embeddings.pos_linear.weight'' \<Longrightarrow> map_of sd' k = map_of sd k"
    by (simp_all add: K_def)
qed

text \<open>
  Claim C2 (truncation bound), as the code has it. Only the tensor under the key
  \<open>img_embeddings.pos_linear.weight\<close> is reconciled: every row of the matrix is
  replaced by its first four entries (by the whole row when it has fewer), so the new
  row is a prefix of the old one and is never longer. With a target built for
  \<open>num_pos\<close> other than 6, whose \<open>pos_linear\<close> has width 4, a source of width at
  least 4 gets exactly the width of the target. The keys of the dictionary keep their
  order, and the tensor of every other key is passed on as it is.
\<close>

theorem truncation_bound:
  "(map_of sd ''img_embeddings.pos_linear.weight'' = None \<longrightarrow> reconcile_shapes sd = Inr sd)
   \<and> (map_of sd ''img_embeddings.pos_linear.weight'' = Some (Nested rows)
        \<and> (\<forall>r \<in> set rows. \<exists>cols. r = Nested cols) \<longrightarrow>
      (\<exists>rows'. reconcile_shapes sd
           = Inr (AList.update ''img_embeddings.pos_linear.weight'' (Nested rows') sd)
         \<and> length rows' = length rows
         \<and> (\<forall>i < length rows. \<exists>cols'. rows' ! i = Nested cols'
               \<and> prefix cols' (elems (rows ! i))
               \<and> length cols' = min 4 (length (elems (rows ! i)))
               \<and> (num_pos \<noteq> 6 \<and> 4 \<le> length (elems (rows ! i))
                    \<longrightarrow> length cols' = pos_linear_in_features num_pos))))
   \<and> (reconcile_shapes sd = Inr sd' \<longrightarrow>
        map fst sd' = map fst sd
        \<and> (\<forall>k. k \<noteq> ''img_embeddings.pos_linear.weight'' \<longrightarrow> map_of sd' k = map_of sd k))"
proof (intro conjI impI)
  assume "map_of sd ''img_embeddings.pos_linear.weight'' = None"
  then show "reconcile_shapes sd = Inr sd"
    unfolding reconcile_shapes_def by (simp only: option.case)
next
  assume h: "map_of sd ''img_embeddings.pos_linear.weight'' = Some (Nested rows)
        \<and> (\<forall>r \<in> set rows. \<exists>cols. r = Nested cols)"
  let ?rows' = "map (\<lambda>r. Nested (take 4 (elems r))) rows"
  from h have k: "map_of sd ''img_embeddings.pos_linear.weight'' = Some (Nested rows)"
    and d: "\<forall>r \<in> set rows. \<exists>cols. r = Nested cols"
    by blast+
  have r: "reconcile_shapes sd
      = Inr (AList.update ''img_embeddings.pos_linear.weight'' (Nested ?rows') sd)"
    unfolding reconcile_shapes_def k option.case slice_cols_matrix [OF d, of 4]
    by (simp only: err_bind_Inr)
  have l: "length ?rows' = length rows" by simp
  have e: "\<exists>cols'. ?rows' ! i = Nested cols'
               \<and> prefix cols' (elems (rows ! i))
               \<and> length cols' = min 4 (length (elems (rows ! i)))
               \<and> (num_pos \<noteq> 6 \<and> 4 \<le> length (elems (rows ! i))
                    \<longrightarrow> length cols' = pos_linear_in_features num_pos)"
    if "i < length rows" for i
  proof (intro exI conjI impI)
    show "?rows' ! i = Nested (take 4 (elems (rows ! i)))" using that by simp
    show "prefix (take 4 (elems (rows ! i))) (elems (rows ! i))" by (rule take_is_prefix)
    show "length (take 4 (elems (rows ! i))) = min 4 (length (elems (rows ! i)))"
      by (simp add: min.commute)
    assume "num_pos \<noteq> 6 \<and> 4 \<le> length (elems (rows ! i))"
    then show "length (take 4 (elems (rows ! i))) = pos_linear_in_features num_pos"
      by (simp add: pos_linear_in_features_def)
  qed
  show "\<exists>rows'. reconcile_shapes sd
           = Inr (AList.update ''img_embeddings.pos_linear.weight'' (Nested rows') sd)
         \<and> length rows' = length rows
         \<and> (\<forall>i < length rows. \<exists>cols'. rows' ! i = Nested cols'
               \<and> prefix cols' (elems (rows ! i))
               \<and> length cols' = min 4 (length (elems (rows ! i)))
               \<and> (num_pos \<noteq> 6 \<and> 4 \<le> length (elems (rows ! i))
                    \<longrightarrow> length cols' = pos_linear_in_features num_pos))"
  proof (rule exI [of _ ?rows'], rule conjI [OF r], rule conjI [OF l], rule allI, rule impI)
    fix i assume "i < length rows"
    then show "\<exists>cols'. ?rows' ! i = Nested cols'
               \<and> prefix cols' (elems (rows ! i))
               \<and> length cols' = min 4 (length (elems (rows ! i)))
               \<and> (num_pos \<noteq> 6 \<and> 4 \<le> length (elems (rows ! i))
                    \<longrightarrow> length cols' = pos_linear_in_features num_pos)"
      by (rule e)
  qed
next
  assume "reconcile_shapes sd = Inr sd'"
  then show "map fst sd' = map fst sd" by (rule reconcile_shapes_keys)
next
  assume "reconcile_shapes sd = Inr sd'"
  then show "\<forall>k. k \<noteq> ''img_embeddings.pos_linear.weight'' \<longrightarrow> map_of sd' k = map_of sd k"
    by (intro allI impI) (rule reconcile_shapes_keys(2))
qed

theorem truncation_bound_witness:
  "map_of example_pos7 ''img_embeddings.pos_linear.weight''
     = Some (Nested [vec [1, 2, 3, 4, 5, 6, 7], vec [8, 9, 10, 11, 12, 13, 14]])
   \<and> vec [1, 2, 3, 4, 5, 6, 7] = Nested (map Scalar [1, 2, 3, 4, 5, 6, 7])
   \<and> vec [8, 9, 10, 11, 12, 13, 14] = Nested (map Scalar [8, 9, 10, 11, 12, 13, 14])
   \<and> reconcile_shapes example_pos7 = Inr example_pos4
   \<and> map fst example_pos4 = map fst example_pos7
   \<and> (\<exists>rows'. reconcile_shapes example_pos7
         = Inr (AList.update ''img_embeddings.pos_linear.weight'' (Nested rows') example_pos7)
       \<and> length rows' = 2)"
proof -
  let ?rows = "[vec [1, 2, 3, 4, 5, 6, 7], vec [8, 9, 10, 11, 12, 13, 14]]"
  have a: "map_of example_pos7 ''img_embeddings.pos_linear.weight'' = Some (Nested ?rows)"
    by code_simp
  have b: "\<forall>r \<in> set ?rows. \<exists>cols. r = Nested cols"
    by (simp add: vec_def)
  have c: "reconcile_shapes example_pos7 = Inr example_pos4"
    by code_simp
  note t = truncation_bound [of example_pos7 ?rows 0 example_pos4]
  from t c have d: "map fst example_pos4 = map fst example_pos7"
    by blast
  from t a b obtain rows' where "reconcile_shapes example_pos7
         = Inr (AList.update ''img_embeddings.pos_linear.weight'' (Nested rows') example_pos7)"
    and "length rows' = length ?rows"
    by blast
  then have e: "\<exists>rows'. reconcile_shapes example_pos7
         = Inr (AList.update ''img_embeddings.pos_linear.weight'' (Nested rows') example_pos7)
       \<and> length rows' = 2"
    by auto
  have v: "vec [1, 2, 3, 4, 5, 6, 7] = Nested (map Scalar [1, 2, 3, 4, 5, 6, 7])"
    "vec [8, 9, 10, 11, 12, 13, 14] = Nested (map Scalar [8, 9, 10, 11, 12, 13, 14])"
    by (simp_all only: vec_def)
  from a v c d e show ?thesis by (intro conjI)
qed

theorem truncation_bound_counterexample:
  "map_of example_wide ''embeddings.word_embeddings.weight''
     = Some (mat [[1, 2], [3, 4], [5, 6], [7, 8]])
   \<and> shape (mat [[1, 2], [3, 4], [5, 6], [7, 8]]) = [4, 2]
   \<and> module_keys [] example_target ! 1 = ''embeddings.word_embeddings.weight''
   \<and> reconcile_shapes example_wide = Inr example_wide
   \<and> from_pretrained torch_load_from_state_dict example_target example_wide None
       = Failed [SizeMismatch ''embeddings.word_embeddings.weight'' [4, 2] [3, 2]]"
proof -
  have a: "map_of example_wide ''embeddings.word_embeddings.weight''
     = Some (mat [[1, 2], [3, 4], [5, 6], [7, 8]])" by code_simp
  have b: "shape (mat [[1, 2], [3, 4], [5, 6], [7, 8]]) = [4, 2]" by code_simp
  have c: "module_keys [] example_target ! 1 = ''embeddings.word_embeddings.weight''"
    by code_simp
  have d: "reconcile_shapes example_wide = Inr example_wide" by code_simp
  have e: "from_pretrained torch_load_from_state_dict example_target example_wide None
       = Failed [SizeMismatch ''embeddings.word_embeddings.weight'' [4, 2] [3, 2]]"
    by code_simp
  from a b c d e show ?thesis by (intro conjI)
qed

section \<open>The extended attention mask\<close>























end
